theory Spec2Isabelle
  imports Complex_Main
begin

section \<open>Template matching by cross-correlation: the embedding\<close>

text \<open>
  The program is \<^verbatim>\<open>computer_vision/template_matching/cross_correlation.py\<close>. It has three
  functions: \<^verbatim>\<open>scipy_example\<close> (the sample generator), \<^verbatim>\<open>cross_correlation\<close> (one
  orientation) and \<^verbatim>\<open>rotational_cc\<close> (the sweep over rotation angles).

  Samples are elements of an ordered field \<open>'a\<close>: the arithmetic of the program is read as
  exact arithmetic, rounding of float64 and NaN are not part of the model. Angles are
  Python integers (the docstring of \<^verbatim>\<open>rotational_cc\<close> declares \<^verbatim>\<open>angle (int)\<close>), so they are
  \<open>int\<close>.

  The names are those of the program, but for \<^verbatim>\<open>filter\<close>, \<^verbatim>\<open>rotate\<close> and \<^verbatim>\<open>normalize\<close>, which
  are constants of HOL: they are \<open>filter_image\<close>, \<open>rotate_fn\<close> and \<open>normalize_flag\<close> here.
\<close>

subsection \<open>Two-dimensional arrays\<close>

text \<open>
  A 2-D numpy array in C order: its shape and its flat row-major buffer. Element
  \<open>[i, j]\<close> is at flat position \<open>i * ncols + j\<close>.
\<close>

record 'a ndarray =
  nrows :: nat
  ncols :: nat
  data :: "'a list"

definition wf_array :: "'a ndarray \<Rightarrow> bool" where
  "wf_array a \<longleftrightarrow> length (data a) = nrows a * ncols a"

definition shape :: "'a ndarray \<Rightarrow> nat \<times> nat" where
  "shape a = (nrows a, ncols a)"

definition elem_at :: "'a ndarray \<Rightarrow> nat \<Rightarrow> nat \<Rightarrow> 'a" where
  "elem_at a i j = data a ! (i * ncols a + j)"

datatype error = AssertionError | ValueError | NanResult

subsection \<open>Library primitives used by the program\<close>

text \<open>
  \<^verbatim>\<open>np.argmax(corr)\<close> on the flattened array: the position of the first occurrence of the
  maximum; it raises \<^verbatim>\<open>ValueError\<close> on an empty array.
\<close>

fun argmax_loop :: "'a::linorder list \<Rightarrow> nat \<Rightarrow> nat \<Rightarrow> 'a \<Rightarrow> nat" where
  "argmax_loop [] i best bv = best"
| "argmax_loop (x # xs) i best bv =
     (if bv < x then argmax_loop xs (Suc i) i x else argmax_loop xs (Suc i) best bv)"

definition np_argmax :: "('a::linorder) ndarray \<Rightarrow> error + nat" where
  "np_argmax a = (case data a of [] \<Rightarrow> Inl ValueError | x # xs \<Rightarrow> Inr (argmax_loop xs 1 0 x))"

text \<open>
  \<^verbatim>\<open>np.unravel_index(k, (h, w))\<close> for a 2-D shape in C order: \<open>(k div w, k mod w)\<close>; an
  index outside the array raises \<^verbatim>\<open>ValueError\<close>.
\<close>

definition np_unravel_index :: "nat \<Rightarrow> nat \<times> nat \<Rightarrow> error + nat \<times> nat" where
  "np_unravel_index k shp =
     (case shp of (h, w) \<Rightarrow> if k < h * w then Inr (k div w, k mod w) else Inl ValueError)"

text \<open>
  Mirror reflection of an index across the border of an axis of length \<open>m\<close>
  (\<^verbatim>\<open>boundary='symm'\<close>): \<open>-1\<close> reads position \<open>0\<close>, \<open>-2\<close> reads \<open>1\<close>, \<open>m\<close> reads \<open>m - 1\<close>,
  and so on with period \<open>2 * m\<close>.
\<close>

definition reflect_symm_index :: "int \<Rightarrow> nat \<Rightarrow> nat" where
  "reflect_symm_index j m =
     (let k = (if 0 \<le> j then nat j mod (2 * m) else nat (- (j + 1)) mod (2 * m))
      in if m \<le> k then 2 * m - k - 1 else k)"

text \<open>
  Modelled from the spec: \<^verbatim>\<open>scipy.signal.correlate2d(in1, in2, boundary='symm', mode='same')\<close>
  is a library routine, its code is not in the repository. The spec (section 4.2 and the
  glossary) describes it: slide the filter over the background and sum the products of the
  overlapping samples at each offset; samples out of range are supplied by mirror
  reflection of the background across its border; the output is aligned to the background
  and has the background's shape. The spec does not say how the window is aligned to the
  cell when the filter has an even size; here the window of output cell \<open>[m, n]\<close> starts
  \<open>(nrows in2 - 1) div 2\<close> rows above and \<open>(ncols in2 - 1) div 2\<close> columns left of the cell.
  No property below depends on the alignment.
\<close>

definition correlate2d :: "('a::comm_ring_1) ndarray \<Rightarrow> 'a ndarray \<Rightarrow> 'a ndarray" where
  "correlate2d in1 in2 =
     \<lparr>nrows = nrows in1, ncols = ncols in1,
      data = map (\<lambda>p.
          (\<Sum>j \<leftarrow> [0..<nrows in2]. \<Sum>i \<leftarrow> [0..<ncols in2].
             elem_at in1
               (reflect_symm_index (int (p div ncols in1) - int ((nrows in2 - 1) div 2) + int j)
                  (nrows in1))
               (reflect_symm_index (int (p mod ncols in1) - int ((ncols in2 - 1) div 2) + int i)
                  (ncols in1))
             * elem_at in2 j i))
        [0..<nrows in1 * ncols in1]\<rparr>"

text \<open>
  \<^verbatim>\<open>np.mean(arrays, axis=0)\<close> and \<^verbatim>\<open>np.max(arrays, axis=0)\<close> on a Python list of 2-D
  arrays: the list is stacked first, which raises \<^verbatim>\<open>ValueError\<close> when the shapes differ;
  the reduction then runs over the list, cell by cell. On an empty list \<^verbatim>\<open>np.max\<close> raises
  \<^verbatim>\<open>ValueError\<close> and \<^verbatim>\<open>np.mean\<close> yields NaN, which the sample type does not have: the
  model reports it as \<open>NanResult\<close>.
\<close>

definition same_shapes :: "'a ndarray list \<Rightarrow> bool" where
  "same_shapes arrs \<longleftrightarrow> (\<forall>a \<in> set arrs. shape a = shape (hd arrs))"

definition np_mean_axis0 :: "('a::linordered_field) ndarray list \<Rightarrow> error + 'a ndarray" where
  "np_mean_axis0 arrs =
     (case arrs of
        [] \<Rightarrow> Inl NanResult
      | a # as \<Rightarrow>
          if same_shapes arrs then
            Inr \<lparr>nrows = nrows a, ncols = ncols a,
                 data = map (\<lambda>s. s / of_nat (length arrs))
                          (foldl (\<lambda>acc b. map2 (+) acc (data b)) (data a) as)\<rparr>
          else Inl ValueError)"

definition np_max_axis0 :: "('a::linordered_field) ndarray list \<Rightarrow> error + 'a ndarray" where
  "np_max_axis0 arrs =
     (case arrs of
        [] \<Rightarrow> Inl ValueError
      | a # as \<Rightarrow>
          if same_shapes arrs then
            Inr \<lparr>nrows = nrows a, ncols = ncols a,
                 data = foldl (\<lambda>acc b. map2 max acc (data b)) (data a) as\<rparr>
          else Inl ValueError)"

subsection \<open>\<^verbatim>\<open>cross_correlation\<close>\<close>

text \<open>
  The return value is the surface alone, or the surface with the pair \<open>(x, y)\<close>, depending
  on the flag.
\<close>

datatype 'a cc_result = CorrOnly "'a ndarray" | CorrLoc "'a ndarray" "nat \<times> nat"

definition cross_correlation ::
  "('a::linordered_field) ndarray \<Rightarrow> 'a ndarray \<Rightarrow> bool \<Rightarrow> error + 'a cc_result" where
  "cross_correlation background_image filter_image return_max_loc =
     (let corr = correlate2d background_image filter_image in
      if return_max_loc then
        (case np_argmax corr of
           Inl e \<Rightarrow> Inl e
         | Inr k \<Rightarrow>
             (case np_unravel_index k (shape corr) of
                Inl e \<Rightarrow> Inl e
              | Inr (y, x) \<Rightarrow> Inr (CorrLoc corr (x, y))))
      else Inr (CorrOnly corr))"

subsection \<open>\<^verbatim>\<open>rotational_cc\<close>\<close>

text \<open>
  \<^verbatim>\<open>scipy.ndimage.rotate(filter, filter_angle, reshape=True)\<close> is a library routine; it is
  the parameter \<open>rotate_fn\<close> of the model. The \<^verbatim>\<open>while\<close> loop may run forever, so it is a
  partial function: \<open>None\<close> is "does not return". The unpacking
  \<^verbatim>\<open>corr, max_loc = cross_correlation(...)\<close> needs the pair.
\<close>

partial_function (option) sweep_loop ::
  "(('a::linordered_field) ndarray \<Rightarrow> int \<Rightarrow> 'a ndarray) \<Rightarrow> 'a ndarray \<Rightarrow> 'a ndarray \<Rightarrow> int \<Rightarrow>
   int \<Rightarrow> 'a ndarray list \<Rightarrow> (nat \<times> nat) list \<Rightarrow>
   (error + 'a ndarray list \<times> (nat \<times> nat) list) option" where
  "sweep_loop rotate_fn background_image filter_image angle filter_angle all_correlations max_locs =
     (if filter_angle < 360 then
        (case cross_correlation background_image (rotate_fn filter_image filter_angle) True of
           Inl e \<Rightarrow> Some (Inl e)
         | Inr (CorrOnly corr) \<Rightarrow> Some (Inl ValueError)
         | Inr (CorrLoc corr max_loc) \<Rightarrow>
             sweep_loop rotate_fn background_image filter_image angle (filter_angle + angle)
               (all_correlations @ [corr]) (max_locs @ [max_loc]))
      else Some (Inr (all_correlations, max_locs)))"

text \<open>The four shapes of the value \<^verbatim>\<open>rotational_cc\<close> returns.\<close>

datatype 'a sweep_result =
    MeanAndMax "'a ndarray" "'a ndarray"
  | MeanOnly "'a ndarray"
  | MaxOnly "'a ndarray"
  | AllSurfaces "'a ndarray list" "(nat \<times> nat) list"

definition select_result ::
  "bool \<Rightarrow> bool \<Rightarrow> ('a::linordered_field) ndarray list \<Rightarrow> (nat \<times> nat) list \<Rightarrow>
   error + 'a sweep_result" where
  "select_result return_average return_max all_correlations max_locs =
     (if return_average \<and> return_max then
        (case np_mean_axis0 all_correlations of
           Inl e \<Rightarrow> Inl e
         | Inr m \<Rightarrow>
             (case np_max_axis0 all_correlations of
                Inl e \<Rightarrow> Inl e
              | Inr mx \<Rightarrow> Inr (MeanAndMax m mx)))
      else if return_average then
        (case np_mean_axis0 all_correlations of Inl e \<Rightarrow> Inl e | Inr m \<Rightarrow> Inr (MeanOnly m))
      else if return_max then
        (case np_max_axis0 all_correlations of Inl e \<Rightarrow> Inl e | Inr mx \<Rightarrow> Inr (MaxOnly mx))
      else Inr (AllSurfaces all_correlations max_locs))"

definition rotational_cc ::
  "(('a::linordered_field) ndarray \<Rightarrow> int \<Rightarrow> 'a ndarray) \<Rightarrow> 'a ndarray \<Rightarrow> 'a ndarray \<Rightarrow> int \<Rightarrow>
   bool \<Rightarrow> bool \<Rightarrow> (error + 'a sweep_result) option" where
  "rotational_cc rotate_fn background_image filter_image angle return_average return_max =
     (if \<not> angle < 360 then Some (Inl AssertionError)
      else
        (case sweep_loop rotate_fn background_image filter_image angle 0 [] [] of
           None \<Rightarrow> None
         | Some (Inl e) \<Rightarrow> Some (Inl e)
         | Some (Inr (all_correlations, max_locs)) \<Rightarrow>
             Some (select_result return_average return_max all_correlations max_locs)))"

text \<open>
  Modelled from the spec: \<^verbatim>\<open>scipy.ndimage.rotate\<close> is a library routine, its code is not in the
  repository. The spec (section 4.3) describes it as the rotation of the filter by the
  current angle, with the output box expanded to hold the rotated content. A rotation by 0
  degrees moves no sample and needs no larger box: in exact arithmetic it returns its
  input. This is the one property of the routine that is modelled; it is a hypothesis
  where it is used, and \<open>rotate_fn\<close> is an arbitrary function everywhere else.
\<close>

definition rotates_by_zero_as_identity ::
  "('a ndarray \<Rightarrow> int \<Rightarrow> 'a ndarray) \<Rightarrow> 'a ndarray \<Rightarrow> bool" where
  "rotates_by_zero_as_identity rot a \<longleftrightarrow> rot a 0 = a"

subsection \<open>Arrays in memory\<close>

text \<open>
  \<^verbatim>\<open>scipy_example\<close> slices an array, copies the slice and updates the copy in place, so
  whether two arrays share storage matters there. The store is the list of the buffers
  allocated so far; the address of a buffer is its position. An array object is a view:
  the buffer it reads, the position of its first element, its shape, and the distance in
  the buffer between two rows (the elements of a row are adjacent).
\<close>

type_synonym 'a store = "'a list list"

record view =
  base :: nat
  offset :: nat
  vrows :: nat
  vcols :: nat
  stride :: nat

definition view_index :: "view \<Rightarrow> nat \<Rightarrow> nat" where
  "view_index v p = offset v + (p div vcols v) * stride v + p mod vcols v"

definition view_positions :: "view \<Rightarrow> nat list" where
  "view_positions v = map (view_index v) [0..<vrows v * vcols v]"

text \<open>The value of an array object in a store.\<close>

definition read_view :: "'a store \<Rightarrow> view \<Rightarrow> 'a ndarray" where
  "read_view s v =
     \<lparr>nrows = vrows v, ncols = vcols v, data = map (\<lambda>q. (s ! base v) ! q) (view_positions v)\<rparr>"

text \<open>A new array: a fresh buffer, contiguous, holding the given value.\<close>

definition alloc :: "'a ndarray \<Rightarrow> 'a store \<Rightarrow> view \<times> 'a store" where
  "alloc a s =
     (\<lparr>base = length s, offset = 0, vrows = nrows a, vcols = ncols a, stride = ncols a\<rparr>,
      s @ [data a])"

text \<open>
  Basic slicing \<^verbatim>\<open>a[r0:r1, c0:c1]\<close> with non-negative bounds: the bounds are clipped to the
  shape, and the result is a view of the same buffer.
\<close>

definition slice_view :: "view \<Rightarrow> nat \<Rightarrow> nat \<Rightarrow> nat \<Rightarrow> nat \<Rightarrow> view" where
  "slice_view v r0 r1 c0 c1 =
     (let r0' = min r0 (vrows v); r1' = max r0' (min r1 (vrows v));
          c0' = min c0 (vcols v); c1' = max c0' (min c1 (vcols v))
      in \<lparr>base = base v, offset = offset v + r0' * stride v + c0',
           vrows = r1' - r0', vcols = c1' - c0', stride = stride v\<rparr>)"

text \<open>\<^verbatim>\<open>np.copy(a)\<close>: a new array with the value of \<open>a\<close>.\<close>

definition np_copy :: "view \<Rightarrow> 'a store \<Rightarrow> view \<times> 'a store" where
  "np_copy v s = alloc (read_view s v) s"

text \<open>
  An in-place update \<^verbatim>\<open>a op= c\<close>: every element of the view is replaced in the buffer of
  the view; the other positions of the buffer and the other buffers stay.
\<close>

definition inplace_map :: "view \<Rightarrow> ('a \<Rightarrow> 'a) \<Rightarrow> 'a store \<Rightarrow> 'a store" where
  "inplace_map v g s =
     s[base v := map (\<lambda>q. if q \<in> set (view_positions v) then g ((s ! base v) ! q)
                            else (s ! base v) ! q)
                   [0..<length (s ! base v)]]"

text \<open>
  \<^verbatim>\<open>a.mean()\<close>. On an empty array numpy's mean is NaN (with a warning), where the quotient
  of the model is 0. The program subtracts a mean only from the elements of the array the
  mean was taken of, so the mean of an empty array is never used.
\<close>

definition np_mean :: "('a::linordered_field) ndarray \<Rightarrow> 'a" where
  "np_mean a = sum_list (data a) / of_nat (length (data a))"

definition sub_scalar :: "('a::linordered_field) ndarray \<Rightarrow> 'a \<Rightarrow> 'a ndarray" where
  "sub_scalar a c = a\<lparr>data := map (\<lambda>x. x - c) (data a)\<rparr>"

text \<open>
  \<^verbatim>\<open>np.random.default_rng()\<close> is a fresh generator seeded from the operating system. The
  model takes what it will draw as a parameter: \<open>rng k\<close> is the \<open>k\<close>-th sample.
  \<^verbatim>\<open>rng.standard_normal(shape)\<close> is the array of the first samples.
\<close>

definition standard_normal :: "(nat \<Rightarrow> 'a) \<Rightarrow> nat \<times> nat \<Rightarrow> 'a ndarray" where
  "standard_normal rng shp =
     (case shp of (h, w) \<Rightarrow> \<lparr>nrows = h, ncols = w, data = map rng [0..<h * w]\<rparr>)"

text \<open>\<^verbatim>\<open>background_image + noise * 50\<close> for two arrays of one shape.\<close>

definition add_noise_50 :: "('a::linordered_field) ndarray \<Rightarrow> 'a ndarray \<Rightarrow> 'a ndarray" where
  "add_noise_50 a noise = a\<lparr>data := map2 (\<lambda>x n. x + n * 50) (data a) (data noise)\<rparr>"

subsection \<open>\<^verbatim>\<open>scipy_example\<close>\<close>

text \<open>
  \<^verbatim>\<open>datasets.face(gray=True)\<close> loads the sample image; it is the parameter \<open>face\<close>. The
  function returns the two array objects; the model returns them with the store they live
  in. Arrays that are no longer reachable when the function returns (the loaded image
  after the subtraction, the noise) are not kept in the store.
\<close>

definition scipy_example ::
  "('a::linordered_field) ndarray \<Rightarrow> (nat \<Rightarrow> 'a) \<Rightarrow> bool \<Rightarrow> bool \<Rightarrow> 'a store \<Rightarrow>
   (view \<times> view) \<times> 'a store" where
  "scipy_example face rng normalize_flag add_noise s0 =
     (case
        (if normalize_flag then
           (case alloc (sub_scalar face (np_mean face)) s0 of
              (background_image, s1) \<Rightarrow>
                (case np_copy (slice_view background_image 300 365 670 750) s1 of
                   (filter_image, s2) \<Rightarrow>
                     ((background_image, filter_image),
                      inplace_map filter_image
                        (\<lambda>x. x - np_mean (read_view s2 filter_image)) s2)))
         else
           (case alloc face s0 of
              (background_image, s1) \<Rightarrow>
                (case np_copy (slice_view background_image 300 365 670 750) s1 of
                   (filter_image, s2) \<Rightarrow> ((background_image, filter_image), s2))))
      of ((background_image, filter_image), s) \<Rightarrow>
        if add_noise then
          (case alloc (add_noise_50 (read_view s background_image)
                         (standard_normal rng (shape (read_view s background_image)))) s of
             (noisy, s') \<Rightarrow> ((noisy, filter_image), s'))
        else ((background_image, filter_image), s))"

section \<open>Properties\<close>

subsection \<open>Shape of the correlation surface, position of the maximum\<close>

lemma correlate2d_nrows [simp]: "nrows (correlate2d a b) = nrows a"
  by (simp add: correlate2d_def)

lemma correlate2d_ncols [simp]: "ncols (correlate2d a b) = ncols a"
  by (simp add: correlate2d_def)

lemma correlate2d_length [simp]: "length (data (correlate2d a b)) = nrows a * ncols a"
  by (simp add: correlate2d_def)

lemma correlate2d_shape: "shape (correlate2d a b) = shape a"
  by (simp add: shape_def)

lemma correlate2d_wf: "wf_array (correlate2d a b)"
  by (simp add: wf_array_def)

lemma argmax_loop_inv:
  assumes "pre \<noteq> []" "best < length pre" "pre ! best = bv"
    and "\<forall>v \<in> set pre. v \<le> bv" and "\<forall>j < best. pre ! j < bv"
  shows "argmax_loop xs (length pre) best bv < length (pre @ xs) \<and>
         (\<forall>v \<in> set (pre @ xs). v \<le> (pre @ xs) ! argmax_loop xs (length pre) best bv) \<and>
         (\<forall>j < argmax_loop xs (length pre) best bv.
            (pre @ xs) ! j < (pre @ xs) ! argmax_loop xs (length pre) best bv)"
  using assms
proof (induction xs arbitrary: pre best bv)
  case Nil
  then show ?case by simp
next
  case (Cons x xs)
  show ?case
  proof (cases "bv < x")
    case True
    have 1: "pre @ [x] \<noteq> []" by simp
    have 2: "length pre < length (pre @ [x])" by simp
    have 3: "(pre @ [x]) ! length pre = x" by simp
    have 4: "\<forall>v \<in> set (pre @ [x]). v \<le> x" using Cons.prems(4) True by auto
    have 5: "\<forall>j < length pre. (pre @ [x]) ! j < x"
    proof (intro allI impI)
      fix j assume "j < length pre"
      then have "pre ! j \<le> bv" using Cons.prems(4) by simp
      with True show "(pre @ [x]) ! j < x" using \<open>j < length pre\<close> by (simp add: nth_append)
    qed
    from Cons.IH[OF 1 2 3 4 5] True show ?thesis by simp
  next
    case False
    have 1: "pre @ [x] \<noteq> []" by simp
    have 2: "best < length (pre @ [x])" using Cons.prems(2) by simp
    have 3: "(pre @ [x]) ! best = bv" using Cons.prems(2,3) by (simp add: nth_append)
    have 4: "\<forall>v \<in> set (pre @ [x]). v \<le> bv" using Cons.prems(4) False by auto
    have 5: "\<forall>j < best. (pre @ [x]) ! j < bv"
      using Cons.prems(2,5) by (auto simp: nth_append)
    from Cons.IH[OF 1 2 3 4 5] False show ?thesis by simp
  qed
qed

lemma np_argmax_first_max:
  assumes "data a \<noteq> []"
  shows "\<exists>k. np_argmax a = Inr k \<and> k < length (data a) \<and>
           (\<forall>v \<in> set (data a). v \<le> data a ! k) \<and> (\<forall>j < k. data a ! j < data a ! k)"
proof -
  from assms obtain x xs where d: "data a = x # xs" by (cases "data a") auto
  have "argmax_loop xs (length [x]) 0 x < length ([x] @ xs) \<and>
         (\<forall>v \<in> set ([x] @ xs). v \<le> ([x] @ xs) ! argmax_loop xs (length [x]) 0 x) \<and>
         (\<forall>j < argmax_loop xs (length [x]) 0 x.
            ([x] @ xs) ! j < ([x] @ xs) ! argmax_loop xs (length [x]) 0 x)"
    by (rule argmax_loop_inv) auto
  then show ?thesis by (simp add: np_argmax_def d)
qed

lemma cross_correlation_True:
  assumes "0 < nrows bg" "0 < ncols bg"
  shows "\<exists>k. k < nrows bg * ncols bg \<and> np_argmax (correlate2d bg f) = Inr k \<and>
    cross_correlation bg f True = Inr (CorrLoc (correlate2d bg f) (k mod ncols bg, k div ncols bg))"
proof -
  have "data (correlate2d bg f) \<noteq> []"
    using assms by (metis correlate2d_length length_0_conv mult_is_0 not_less_zero)
  from np_argmax_first_max[OF this] obtain k where k: "np_argmax (correlate2d bg f) = Inr k"
    "k < nrows bg * ncols bg" by auto
  then show ?thesis
    by (auto simp: cross_correlation_def np_unravel_index_def shape_def)
qed

lemma sweep_loop_unroll:
  assumes "0 < nrows bg" "0 < ncols bg"
    and "360 \<le> fa + int k * angle" and "\<forall>j<k. fa + int j * angle < 360"
  shows "\<exists>cs ls. sweep_loop rotate_fn bg f angle fa acc locs = Some (Inr (acc @ cs, locs @ ls)) \<and>
           length cs = k \<and> length ls = k \<and>
           (\<forall>j<k. cross_correlation bg (rotate_fn f (fa + int j * angle)) True
                     = Inr (CorrLoc (cs ! j) (ls ! j)))"
  using assms(3,4)
proof (induction k arbitrary: fa acc locs)
  case 0
  then show ?case by (subst sweep_loop.simps) simp
next
  case (Suc k)
  from Suc.prems(2) have lt: "fa < 360" by force
  from cross_correlation_True[OF assms(1,2)] obtain c l where
    cc: "cross_correlation bg (rotate_fn f fa) True = Inr (CorrLoc c l)" by blast
  have a: "360 \<le> (fa + angle) + int k * angle"
    using Suc.prems(1) by (simp add: algebra_simps)
  have b: "\<forall>j<k. (fa + angle) + int j * angle < 360"
  proof (intro allI impI)
    fix j assume "j < k"
    then have "Suc j < Suc k" by simp
    then have "fa + int (Suc j) * angle < 360" using Suc.prems(2) by blast
    then show "(fa + angle) + int j * angle < 360" by (simp add: algebra_simps)
  qed
  from Suc.IH[OF a b, of "acc @ [c]" "locs @ [l]"] obtain cs ls where
    r: "sweep_loop rotate_fn bg f angle (fa + angle) (acc @ [c]) (locs @ [l])
          = Some (Inr ((acc @ [c]) @ cs, (locs @ [l]) @ ls))"
    and len: "length cs = k" "length ls = k"
    and el: "\<forall>j<k. cross_correlation bg (rotate_fn f (fa + angle + int j * angle)) True
                     = Inr (CorrLoc (cs ! j) (ls ! j))"
    by blast
  have s: "sweep_loop rotate_fn bg f angle fa acc locs = Some (Inr (acc @ (c # cs), locs @ (l # ls)))"
    by (subst sweep_loop.simps) (simp add: lt cc r)
  have e: "\<forall>j<Suc k. cross_correlation bg (rotate_fn f (fa + int j * angle)) True
                     = Inr (CorrLoc ((c # cs) ! j) ((l # ls) ! j))"
  proof (intro allI impI)
    fix j assume j: "j < Suc k"
    show "cross_correlation bg (rotate_fn f (fa + int j * angle)) True
                     = Inr (CorrLoc ((c # cs) ! j) ((l # ls) ! j))"
    proof (cases j)
      case 0
      then show ?thesis using cc by simp
    next
      case (Suc i)
      then have "i < k" using j by simp
      with el have "cross_correlation bg (rotate_fn f (fa + angle + int i * angle)) True
                     = Inr (CorrLoc (cs ! i) (ls ! i))" by blast
      then show ?thesis using Suc by (simp add: algebra_simps)
    qed
  qed
  show ?case
    apply (rule exI[of _ "c # cs"])
    apply (rule exI[of _ "l # ls"])
    using s len e by simp
qed

lemma sweep_count_bounds:
  assumes "0 < (angle::int)"
  shows "360 \<le> 0 + int (nat \<lceil>360 / real_of_int angle\<rceil>) * angle"
    and "\<forall>j < nat \<lceil>360 / real_of_int angle\<rceil>. 0 + int j * angle < 360"
proof -
  let ?n = "\<lceil>360 / real_of_int angle\<rceil>"
  have "0 < 360 / real_of_int angle" using assms by simp
  then have pos: "0 \<le> ?n" using zero_le_ceiling[of "360 / real_of_int angle"] by linarith
  have p: "0 < real_of_int angle" using assms by simp
  have "360 / real_of_int angle \<le> of_int ?n" by (rule le_of_int_ceiling)
  then have "360 \<le> of_int ?n * real_of_int angle"
    using pos_divide_le_eq[OF p, of 360 "of_int ?n"] by simp
  then have "(360::int) \<le> ?n * angle"
    by (metis of_int_le_iff of_int_mult of_int_numeral)
  then show "360 \<le> 0 + int (nat ?n) * angle" using pos by simp
  show "\<forall>j < nat ?n. 0 + int j * angle < 360"
  proof (intro allI impI)
    fix j assume "j < nat ?n"
    then have "int j < ?n" by linarith
    then have "real_of_int (int j) < 360 / real_of_int angle"
      using less_ceiling_iff by blast
    then have "real_of_int (int j) * real_of_int angle < 360"
      using pos_less_divide_eq[OF p, of "real_of_int (int j)" 360] by simp
    then have "int j * angle < 360"
      by (metis of_int_less_iff of_int_mult of_int_numeral)
    then show "0 + int j * angle < 360" by simp
  qed
qed

lemma sweep_loop_diverges_aux:
  assumes "sweep_loop rotate_fn bg f angle fa acc locs = Some r"
  shows "angle \<le> 0 \<longrightarrow> fa < 360 \<longrightarrow> 0 < nrows bg \<longrightarrow> 0 < ncols bg \<longrightarrow> False"
  using assms
proof (induction rule: sweep_loop.raw_induct[rotated 1, consumes 1])
  case (1 sl rotate_fn bg f angle fa acc locs r)
  show ?case
  proof (intro impI)
    assume h: "angle \<le> 0" "fa < 360" "0 < nrows bg" "0 < ncols bg"
    from cross_correlation_True[OF h(3,4)] obtain c l where
      cc: "cross_correlation bg (rotate_fn f fa) True = Inr (CorrLoc c l)" by blast
    from 1(2) have "sl rotate_fn bg f angle (fa + angle) (acc @ [c]) (locs @ [l]) = Some r"
      using h(2) cc by simp
    from 1(1)[OF this] h show False by simp
  qed
qed

lemma sweep_loop_diverges:
  assumes "angle \<le> 0" "fa < 360" "0 < nrows bg" "0 < ncols bg"
  shows "sweep_loop rotate_fn bg f angle fa acc locs = None"
proof (cases "sweep_loop rotate_fn bg f angle fa acc locs")
  case None
  then show ?thesis .
next
  case (Some r)
  from sweep_loop_diverges_aux[OF this] assms show ?thesis by blast
qed

subsection \<open>The reductions over the list of surfaces\<close>

lemma foldl_map2_length:
  assumes "\<forall>b \<in> set bs. length (data b) = length d"
  shows "length (foldl (\<lambda>acc b. map2 g acc (data b)) d bs) = length d"
  using assms by (induction bs arbitrary: d) simp_all

lemma foldl_map2_nth:
  assumes "\<forall>b \<in> set bs. length (data b) = length d" "p < length d"
  shows "foldl (\<lambda>acc b. map2 g acc (data b)) d bs ! p = foldl g (d ! p) (map (\<lambda>b. data b ! p) bs)"
  using assms
proof (induction bs arbitrary: d)
  case Nil
  then show ?case by simp
next
  case (Cons b bs)
  have l: "length (map2 g d (data b)) = length d" using Cons.prems(1) by simp
  have "\<forall>c \<in> set bs. length (data c) = length (map2 g d (data b))"
    using Cons.prems(1) l by simp
  from Cons.IH[OF this] Cons.prems l show ?case by simp
qed

lemma foldl_add_sum_list: "foldl (+) (x::'a::comm_monoid_add) xs = x + sum_list xs"
  by (induction xs arbitrary: x) (simp_all add: add.assoc)

lemma foldl_max_Max: "foldl max (x::'a::linorder) xs = Max (set (x # xs))"
proof (induction xs arbitrary: x)
  case Nil
  then show ?case by simp
next
  case (Cons y ys)
  have "foldl max x (y # ys) = Max (set (max x y # ys))" using Cons.IH by simp
  also have "\<dots> = Max (insert (max x y) (set ys))" by simp
  also have "\<dots> = Max (insert x (insert y (set ys)))"
    by (cases "set ys = {}") (simp_all add: max.assoc)
  finally show ?case by simp
qed

lemma same_shapes_data_length:
  assumes "same_shapes (a # bs)" "\<forall>c \<in> set (a # bs). wf_array c"
  shows "\<forall>b \<in> set bs. length (data b) = length (data a)"
  using assms by (auto simp: same_shapes_def shape_def wf_array_def)

lemma np_mean_axis0_cells:
  assumes "cs \<noteq> []" "\<forall>c \<in> set cs. wf_array c \<and> shape c = (h, w)"
  shows "\<exists>m. np_mean_axis0 cs = Inr m \<and> shape m = (h, w) \<and> wf_array m \<and>
           (\<forall>i j. i < h \<and> j < w \<longrightarrow>
              elem_at m i j = (\<Sum>c \<leftarrow> cs. elem_at c i j) / of_nat (length cs))"
proof -
  from assms(1) obtain a bs where cs: "cs = a # bs" by (cases cs) auto
  have ss: "same_shapes cs" using assms(2) cs by (simp add: same_shapes_def)
  have wf: "\<forall>c \<in> set (a # bs). wf_array c" using assms(2) cs by simp
  have len: "\<forall>b \<in> set bs. length (data b) = length (data a)"
    using same_shapes_data_length ss wf cs by blast
  have sa: "nrows a = h" "ncols a = w" "length (data a) = h * w"
    using assms(2) cs by (auto simp: shape_def wf_array_def)
  let ?m = "\<lparr>nrows = nrows a, ncols = ncols a,
             data = map (\<lambda>s. s / of_nat (length cs))
                      (foldl (\<lambda>acc b. map2 (+) acc (data b)) (data a) bs)\<rparr>"
  have r: "np_mean_axis0 cs = Inr ?m" using ss cs by (simp add: np_mean_axis0_def)
  have l: "length (data ?m) = h * w" using foldl_map2_length[OF len] sa by simp
  have cells: "elem_at ?m i j = (\<Sum>c \<leftarrow> cs. elem_at c i j) / of_nat (length cs)"
    if "i < h" "j < w" for i j
  proof -
    have "i * w + j < Suc i * w" using that(2) by simp
    also have "\<dots> \<le> h * w" using that(1) by (intro mult_le_mono1) simp
    finally have p: "i * w + j < length (data a)" using sa by simp
    have "\<forall>c \<in> set cs. ncols c = w" using assms(2) by (simp add: shape_def)
    then have e: "map (\<lambda>c. elem_at c i j) cs = map (\<lambda>c. data c ! (i * w + j)) cs"
      by (simp add: elem_at_def)
    have "elem_at ?m i j = (foldl (\<lambda>acc b. map2 (+) acc (data b)) (data a) bs) ! (i * w + j)
             / of_nat (length cs)"
      using p foldl_map2_length[OF len, of "(+)"] sa by (simp add: elem_at_def)
    also have "\<dots> = (data a ! (i * w + j) + sum_list (map (\<lambda>b. data b ! (i * w + j)) bs))
             / of_nat (length cs)"
      by (simp add: foldl_map2_nth[OF len p] foldl_add_sum_list)
    also have "\<dots> = (\<Sum>c \<leftarrow> cs. elem_at c i j) / of_nat (length cs)"
      unfolding e unfolding cs by simp
    finally show ?thesis .
  qed
  show ?thesis
    apply (rule exI[of _ ?m])
    using r l sa cells by (simp add: shape_def wf_array_def)
qed

lemma np_max_axis0_cells:
  assumes "cs \<noteq> []" "\<forall>c \<in> set cs. wf_array c \<and> shape c = (h, w)"
  shows "\<exists>m. np_max_axis0 cs = Inr m \<and> shape m = (h, w) \<and> wf_array m \<and>
           (\<forall>i j. i < h \<and> j < w \<longrightarrow> elem_at m i j = Max ((\<lambda>c. elem_at c i j) ` set cs))"
proof -
  from assms(1) obtain a bs where cs: "cs = a # bs" by (cases cs) auto
  have ss: "same_shapes cs" using assms(2) cs by (simp add: same_shapes_def)
  have wf: "\<forall>c \<in> set (a # bs). wf_array c" using assms(2) cs by simp
  have len: "\<forall>b \<in> set bs. length (data b) = length (data a)"
    using same_shapes_data_length ss wf cs by blast
  have sa: "nrows a = h" "ncols a = w" "length (data a) = h * w"
    using assms(2) cs by (auto simp: shape_def wf_array_def)
  let ?m = "\<lparr>nrows = nrows a, ncols = ncols a,
             data = foldl (\<lambda>acc b. map2 max acc (data b)) (data a) bs\<rparr>"
  have r: "np_max_axis0 cs = Inr ?m" using ss cs by (simp add: np_max_axis0_def)
  have l: "length (data ?m) = h * w" using foldl_map2_length[OF len] sa by simp
  have cells: "elem_at ?m i j = Max ((\<lambda>c. elem_at c i j) ` set cs)"
    if "i < h" "j < w" for i j
  proof -
    have "i * w + j < Suc i * w" using that(2) by simp
    also have "\<dots> \<le> h * w" using that(1) by (intro mult_le_mono1) simp
    finally have p: "i * w + j < length (data a)" using sa by simp
    have "\<forall>c \<in> set cs. ncols c = w" using assms(2) by (simp add: shape_def)
    then have e: "map (\<lambda>c. elem_at c i j) cs = map (\<lambda>c. data c ! (i * w + j)) cs"
      by (simp add: elem_at_def)
    have "elem_at ?m i j = (foldl (\<lambda>acc b. map2 max acc (data b)) (data a) bs) ! (i * w + j)"
      using sa by (simp add: elem_at_def)
    also have "\<dots> = Max (set (data a ! (i * w + j) # map (\<lambda>b. data b ! (i * w + j)) bs))"
      by (simp only: foldl_map2_nth[OF len p] foldl_max_Max)
    also have "\<dots> = Max (set (map (\<lambda>c. elem_at c i j) cs))"
      unfolding e unfolding cs by simp
    finally show ?thesis by simp
  qed
  show ?thesis
    apply (rule exI[of _ ?m])
    using r l sa cells by (simp add: shape_def wf_array_def)
qed

subsection \<open>Surfaces collected by the sweep\<close>

lemma cross_correlation_True_surface:
  assumes "cross_correlation bg g True = Inr (CorrLoc c l)"
  shows "c = correlate2d bg g"
proof (cases "np_argmax (correlate2d bg g)")
  case (Inl e)
  with assms show ?thesis by (simp add: cross_correlation_def)
next
  case (Inr k)
  show ?thesis
  proof (cases "np_unravel_index k (shape (correlate2d bg g))")
    case (Inl e)
    with assms Inr show ?thesis by (simp add: cross_correlation_def)
  next
    case (Inr yx)
    obtain y x where "yx = (y, x)" by (cases yx)
    with assms Inr \<open>np_argmax (correlate2d bg g) = Inr k\<close> show ?thesis
      by (simp add: cross_correlation_def)
  qed
qed

lemma sweep_loop_shapes_aux:
  assumes "sweep_loop rotate_fn bg f angle fa acc locs = Some r"
  shows "(\<forall>c \<in> set acc. shape c = shape bg \<and> wf_array c) \<longrightarrow>
         (\<forall>cs ls. r = Inr (cs, ls) \<longrightarrow> (\<forall>c \<in> set cs. shape c = shape bg \<and> wf_array c))"
  using assms
proof (induction rule: sweep_loop.raw_induct[rotated 1, consumes 1])
  case (1 sl rotate_fn bg f angle fa acc locs r)
  show ?case
  proof (cases "fa < 360")
    case False
    with 1(2) have "r = Inr (acc, locs)" by simp
    then show ?thesis by simp
  next
    case True
    show ?thesis
    proof (cases "cross_correlation bg (rotate_fn f fa) True")
      case (Inl e)
      with 1(2) True have "r = Inl e" by simp
      then show ?thesis by simp
    next
      case (Inr res)
      show ?thesis
      proof (cases res)
        case (CorrOnly c)
        with 1(2) True Inr have "r = Inl ValueError" by simp
        then show ?thesis by simp
      next
        case (CorrLoc c l)
        have c: "c = correlate2d bg (rotate_fn f fa)"
          using Inr CorrLoc by (intro cross_correlation_True_surface[of _ _ _ l]) simp
        from 1(2) True Inr CorrLoc
        have "sl rotate_fn bg f angle (fa + angle) (acc @ [c]) (locs @ [l]) = Some r" by simp
        from 1(1)[OF this]
        have ih: "(\<forall>d \<in> set (acc @ [c]). shape d = shape bg \<and> wf_array d) \<longrightarrow>
           (\<forall>cs ls. r = Inr (cs, ls) \<longrightarrow> (\<forall>d \<in> set cs. shape d = shape bg \<and> wf_array d))" .
        have sc: "shape c = shape bg" "wf_array c"
          by (simp_all only: c correlate2d_shape correlate2d_wf)
        show ?thesis
        proof (intro impI)
          assume a: "\<forall>d \<in> set acc. shape d = shape bg \<and> wf_array d"
          have "\<forall>d \<in> set (acc @ [c]). shape d = shape bg \<and> wf_array d"
          proof
            fix d assume "d \<in> set (acc @ [c])"
            then have "d \<in> set acc \<or> d = c" by auto
            then show "shape d = shape bg \<and> wf_array d" using a sc by blast
          qed
          with ih show "\<forall>cs ls. r = Inr (cs, ls) \<longrightarrow> (\<forall>d \<in> set cs. shape d = shape bg \<and> wf_array d)"
            by (rule mp)
        qed
      qed
    qed
  qed
qed

lemma sweep_loop_shapes:
  assumes "sweep_loop rotate_fn bg f angle 0 [] [] = Some (Inr (cs, ls))"
  shows "\<forall>c \<in> set cs. shape c = shape bg \<and> wf_array c"
  using sweep_loop_shapes_aux[OF assms] by simp


subsection \<open>Reading and writing arrays in the store\<close>

lemma view_positions_contiguous:
  "view_positions \<lparr>base = b, offset = 0, vrows = r, vcols = c, stride = c\<rparr> = [0..<r * c]"
proof -
  have "view_index \<lparr>base = b, offset = 0, vrows = r, vcols = c, stride = c\<rparr> = (\<lambda>p. p)"
    by (rule ext) (simp add: view_index_def)
  then show ?thesis by (simp add: view_positions_def)
qed

lemma read_view_alloc:
  assumes "wf_array a"
  shows "read_view (snd (alloc a s)) (fst (alloc a s)) = a"
proof -
  have "map (\<lambda>q. data a ! q) [0..<length (data a)] = data a"
    by (rule map_nth)
  then have "map (\<lambda>q. data a ! q) [0..<nrows a * ncols a] = data a"
    using assms by (simp add: wf_array_def)
  then show ?thesis
    by (simp add: alloc_def read_view_def view_positions_contiguous)
qed

lemma read_view_append:
  assumes "base v < length s"
  shows "read_view (s @ t) v = read_view s v"
  using assms by (simp add: read_view_def nth_append)

lemma read_view_inplace_other:
  assumes "base v \<noteq> base w"
  shows "read_view (inplace_map w g s) v = read_view s v"
  using assms by (simp add: read_view_def inplace_map_def)

lemma read_view_inplace_same:
  assumes "base v < length s" "\<forall>q \<in> set (view_positions v). q < length (s ! base v)"
  shows "read_view (inplace_map v g s) v
           = \<lparr>nrows = vrows v, ncols = vcols v, data = map g (data (read_view s v))\<rparr>"
proof -
  have "map (\<lambda>q. (inplace_map v g s ! base v) ! q) (view_positions v)
          = map (\<lambda>q. g ((s ! base v) ! q)) (view_positions v)"
  proof (rule map_cong[OF refl])
    fix q assume q: "q \<in> set (view_positions v)"
    then have "q < length (s ! base v)" using assms(2) by blast
    then show "(inplace_map v g s ! base v) ! q = g ((s ! base v) ! q)"
      using assms(1) q by (simp add: inplace_map_def)
  qed
  then show ?thesis by (simp add: read_view_def comp_def)
qed

lemma read_view_wf: "wf_array (read_view s v)"
  by (simp add: wf_array_def read_view_def view_positions_def)

subsection \<open>What \<^verbatim>\<open>scipy_example\<close> returns\<close>

lemma sub_scalar_wf: "wf_array a \<Longrightarrow> wf_array (sub_scalar a c)"
  by (simp add: wf_array_def sub_scalar_def)

lemma sub_scalar_shape [simp]:
  "nrows (sub_scalar a c) = nrows a" "ncols (sub_scalar a c) = ncols a"
  by (simp_all add: sub_scalar_def)

text \<open>The state after the first part of the function, before the noise step.\<close>

lemma scipy_example_clean:
  fixes face :: "('a::linordered_field) ndarray" and normalize_flag :: bool and s0 :: "'a store"
  assumes wf: "wf_array face"
  assumes bg0_def: "bg0 = (if normalize_flag then sub_scalar face (np_mean face) else face)"
  assumes bgv_def: "bgv = \<lparr>base = length s0, offset = 0, vrows = nrows face, vcols = ncols face,
                    stride = ncols face\<rparr>"
  assumes crop_def: "crop = read_view (s0 @ [data bg0]) (slice_view bgv 300 365 670 750)"
  assumes fv_def: "fv = \<lparr>base = Suc (length s0), offset = 0, vrows = nrows crop, vcols = ncols crop,
                   stride = ncols crop\<rparr>"
  shows "\<exists>s. scipy_example face rng normalize_flag False s0 = ((bgv, fv), s) \<and>
           length s = length s0 + 2 \<and>
           read_view s bgv = bg0 \<and>
           read_view s (slice_view bgv 300 365 670 750) = crop \<and>
           read_view s fv = (if normalize_flag then sub_scalar crop (np_mean crop) else crop)"
proof -
  let ?s1 = "s0 @ [data bg0]"
  let ?s2 = "?s1 @ [data crop]"
  have wfbg: "wf_array bg0" using wf by (simp add: bg0_def sub_scalar_wf)
  have shbg: "nrows bg0 = nrows face" "ncols bg0 = ncols face" by (simp_all add: bg0_def)
  have a1: "alloc bg0 s0 = (bgv, ?s1)" by (simp add: alloc_def bgv_def shbg)
  have wfc: "wf_array crop" by (simp add: crop_def read_view_wf)
  have c1: "np_copy (slice_view bgv 300 365 670 750) ?s1 = (fv, ?s2)"
    by (simp add: np_copy_def alloc_def fv_def crop_def)
  have a2: "alloc crop ?s1 = (fv, ?s2)" by (simp add: alloc_def fv_def)
  have r_bg1: "read_view ?s1 bgv = bg0"
    using read_view_alloc[OF wfbg, of s0] by (simp add: a1)
  have bbg: "base bgv < length ?s1" by (simp add: bgv_def)
  have r_bg2: "read_view ?s2 bgv = bg0"
    using read_view_append[OF bbg, of "[data crop]"] r_bg1 by simp
  have bsl: "base (slice_view bgv 300 365 670 750) = base bgv" by (simp add: slice_view_def Let_def)
  have r_crop2: "read_view ?s2 (slice_view bgv 300 365 670 750) = crop"
    using read_view_append[of "slice_view bgv 300 365 670 750" ?s1 "[data crop]"] bsl bbg
    by (simp add: crop_def)
  have r_f2: "read_view ?s2 fv = crop"
    using read_view_alloc[OF wfc, of ?s1] by (simp add: a2)
  show ?thesis
  proof (cases normalize_flag)
    case False
    then have "scipy_example face rng normalize_flag False s0 = ((bgv, fv), ?s2)"
      using a1 c1 by (simp add: scipy_example_def bg0_def)
    then show ?thesis using r_bg2 r_crop2 r_f2 False by simp
  next
    case True
    let ?g = "\<lambda>x. x - np_mean crop"
    let ?s3 = "inplace_map fv ?g ?s2"
    have ex: "scipy_example face rng normalize_flag False s0 = ((bgv, fv), ?s3)"
      using a1 c1 True r_f2 by (simp add: scipy_example_def bg0_def)
    have ne: "base bgv \<noteq> base fv" by (simp add: bgv_def fv_def)
    have r_bg3: "read_view ?s3 bgv = bg0"
      using read_view_inplace_other[OF ne, of ?g ?s2] r_bg2 by simp
    have ne2: "base (slice_view bgv 300 365 670 750) \<noteq> base fv"
      using bsl ne by simp
    have r_crop3: "read_view ?s3 (slice_view bgv 300 365 670 750) = crop"
      using read_view_inplace_other[OF ne2, of ?g ?s2] r_crop2 by simp
    have bf: "base fv < length ?s2" by (simp add: fv_def)
    have pos: "view_positions fv = [0..<nrows crop * ncols crop]"
      by (simp add: fv_def view_positions_contiguous)
    have buf: "?s2 ! base fv = data crop" by (simp add: fv_def nth_append)
    have inb: "\<forall>q \<in> set (view_positions fv). q < length (?s2 ! base fv)"
      using wfc unfolding pos buf by (simp add: wf_array_def)
    have "read_view ?s3 fv = \<lparr>nrows = vrows fv, ncols = vcols fv, data = map ?g (data (read_view ?s2 fv))\<rparr>"
      by (rule read_view_inplace_same[OF bf inb])
    also have "\<dots> = sub_scalar crop (np_mean crop)"
      unfolding r_f2 by (simp add: fv_def sub_scalar_def)
    finally have r_f3: "read_view ?s3 fv = sub_scalar crop (np_mean crop)" .
    have len: "length ?s3 = length s0 + 2" by (simp add: inplace_map_def)
    show ?thesis using ex len r_bg3 r_crop3 r_f3 True by simp
  qed
qed

lemma scipy_example_noise_step:
  "scipy_example face rng normalize_flag True s0 =
     (case scipy_example face rng' normalize_flag False s0 of
        ((bv, fv), s) \<Rightarrow>
          (case alloc (add_noise_50 (read_view s bv)
                         (standard_normal rng (shape (read_view s bv)))) s of
             (noisy, s') \<Rightarrow> ((noisy, fv), s')))"
  by (simp add: scipy_example_def split: prod.splits)

lemma add_noise_50_wf:
  assumes "wf_array a"
  shows "wf_array (add_noise_50 a (standard_normal rng (shape a)))"
  using assms by (simp add: wf_array_def add_noise_50_def standard_normal_def shape_def)

text \<open>The state when the function returns, for both values of \<^verbatim>\<open>add_noise\<close>.\<close>

lemma scipy_example_result:
  fixes face :: "('a::linordered_field) ndarray" and normalize_flag :: bool and s0 :: "'a store"
  assumes wf: "wf_array face"
  assumes bg0_def: "bg0 = (if normalize_flag then sub_scalar face (np_mean face) else face)"
  assumes bgv_def: "bgv = \<lparr>base = length s0, offset = 0, vrows = nrows face, vcols = ncols face,
                    stride = ncols face\<rparr>"
  assumes crop_def: "crop = read_view (s0 @ [data bg0]) (slice_view bgv 300 365 670 750)"
  shows "\<exists>bv fv s. scipy_example face rng normalize_flag add_noise s0 = ((bv, fv), s) \<and>
           base fv = Suc (length s0) \<and> (\<not> add_noise \<longrightarrow> bv = bgv) \<and>
           base bv = (if add_noise then length s0 + 2 else length s0) \<and>
           base bv < length s \<and> base fv < length s \<and>
           read_view s bgv = bg0 \<and>
           read_view s (slice_view bgv 300 365 670 750) = crop \<and>
           read_view s fv = (if normalize_flag then sub_scalar crop (np_mean crop) else crop) \<and>
           read_view s bv = (if add_noise then add_noise_50 bg0 (standard_normal rng (shape bg0))
                             else bg0)"
proof -
  define fv where "fv = \<lparr>base = Suc (length s0), offset = 0, vrows = nrows crop,
                          vcols = ncols crop, stride = ncols crop\<rparr>"
  from scipy_example_clean[OF wf bg0_def bgv_def crop_def fv_def, of rng]
  obtain s where ex: "scipy_example face rng normalize_flag False s0 = ((bgv, fv), s)"
    and len: "length s = length s0 + 2"
    and r_bg: "read_view s bgv = bg0"
    and r_crop: "read_view s (slice_view bgv 300 365 670 750) = crop"
    and r_f: "read_view s fv = (if normalize_flag then sub_scalar crop (np_mean crop) else crop)"
    by blast
  have bfv: "base fv = Suc (length s0)" by (simp add: fv_def)
  have bbg: "base bgv = length s0" by (simp add: bgv_def)
  show ?thesis
  proof (cases add_noise)
    case False
    show ?thesis
      by (intro exI[of _ bgv] exI[of _ fv] exI[of _ s])
         (use False ex len r_bg r_crop r_f bfv bbg in simp)
  next
    case True
    let ?n = "add_noise_50 bg0 (standard_normal rng (shape bg0))"
    let ?nv = "\<lparr>base = length s, offset = 0, vrows = nrows ?n, vcols = ncols ?n, stride = ncols ?n\<rparr>"
    let ?s' = "s @ [data ?n]"
    have wfbg: "wf_array bg0" using r_bg read_view_wf[of s bgv] by simp
    have wfn: "wf_array ?n" by (rule add_noise_50_wf[OF wfbg])
    have al: "alloc ?n s = (?nv, ?s')" by (simp add: alloc_def)
    have ex': "scipy_example face rng normalize_flag add_noise s0 = ((?nv, fv), ?s')"
      using True scipy_example_noise_step[of face rng normalize_flag s0 rng] ex r_bg al by simp
    have r_n: "read_view ?s' ?nv = ?n" using read_view_alloc[OF wfn, of s] al by simp
    have l1: "base fv < length s" "base bgv < length s"
      "base (slice_view bgv 300 365 670 750) < length s"
      using len bfv bbg by (simp_all add: slice_view_def Let_def)
    have r1: "read_view ?s' fv = read_view s fv" by (rule read_view_append[OF l1(1)])
    have r2: "read_view ?s' bgv = read_view s bgv" by (rule read_view_append[OF l1(2)])
    have r3: "read_view ?s' (slice_view bgv 300 365 670 750)
                = read_view s (slice_view bgv 300 365 670 750)"
      by (rule read_view_append[OF l1(3)])
    show ?thesis
      by (intro exI[of _ ?nv] exI[of _ fv] exI[of _ ?s'])
         (use True ex' len r_n r1 r2 r3 r_bg r_crop r_f bfv in simp)
  qed
qed

lemma np_mean_sub_scalar:
  fixes a :: "('a::linordered_field) ndarray"
  assumes "data a \<noteq> []"
  shows "np_mean (sub_scalar a (np_mean a)) = 0"
proof -
  let ?n = "of_nat (length (data a)) :: 'a"
  have n: "?n \<noteq> 0" using assms by simp
  have s: "sum_list (map (\<lambda>x. x - c) xs) = sum_list xs - of_nat (length xs) * c"
    for c :: 'a and xs
    by (induction xs) (simp_all add: algebra_simps)
  have "sum_list (map (\<lambda>x. x - np_mean a) (data a)) = sum_list (data a) - ?n * np_mean a"
    by (rule s)
  also have "\<dots> = 0" using n by (simp add: np_mean_def)
  finally show ?thesis by (simp add: np_mean_def sub_scalar_def)
qed

lemma crop_nonempty:
  assumes "300 < vrows v" "670 < vcols v"
  shows "0 < vrows (slice_view v 300 365 670 750)" "0 < vcols (slice_view v 300 365 670 750)"
  using assms by (simp_all add: slice_view_def Let_def)

lemma read_view_update_other:
  assumes "base v \<noteq> b"
  shows "read_view (s[b := buf]) v = read_view s v"
  using assms by (simp add: read_view_def)

lemma crop_store_independent:
  "read_view (s0 @ [d])
     (slice_view \<lparr>base = length s0, offset = 0, vrows = r, vcols = c, stride = c\<rparr> r0 r1 c0 c1)
   = read_view [d]
     (slice_view \<lparr>base = 0, offset = 0, vrows = r, vcols = c, stride = c\<rparr> r0 r1 c0 c1)"
  by (simp add: read_view_def slice_view_def Let_def view_positions_def view_index_def)

text \<open>
  The values of the two arrays the function returns, written without the store the call
  started in: \<open>bg0\<close> is the background before the noise step, \<open>crop\<close> its sub-region.
\<close>

lemma scipy_example_values:
  fixes face :: "('a::linordered_field) ndarray" and normalize_flag :: bool and s0 :: "'a store"
  assumes wf: "wf_array face"
    and bg0_def: "bg0 = (if normalize_flag then sub_scalar face (np_mean face) else face)"
    and crop_def: "crop = read_view [data bg0]
           (slice_view \<lparr>base = 0, offset = 0, vrows = nrows face, vcols = ncols face,
                          stride = ncols face\<rparr> 300 365 670 750)"
    and bgv_def: "bgv = \<lparr>base = length s0, offset = 0, vrows = nrows face, vcols = ncols face,
                          stride = ncols face\<rparr>"
  shows "\<exists>bv fv s. scipy_example face rng normalize_flag add_noise s0 = ((bv, fv), s) \<and>
           base bv \<noteq> base fv \<and>
           (\<not> add_noise \<longrightarrow> bv = bgv) \<and>
           read_view s bgv = bg0 \<and>
           read_view s (slice_view bgv 300 365 670 750) = crop \<and>
           read_view s fv = (if normalize_flag then sub_scalar crop (np_mean crop) else crop) \<and>
           read_view s bv = (if add_noise then add_noise_50 bg0 (standard_normal rng (shape bg0))
                             else bg0)"
proof -
  define crop' where "crop' = read_view (s0 @ [data bg0]) (slice_view bgv 300 365 670 750)"
  have c: "crop' = crop"
    unfolding crop'_def crop_def bgv_def by (rule crop_store_independent)
  from scipy_example_result[OF wf bg0_def bgv_def crop'_def, of rng add_noise]
  obtain bv fv s where ex: "scipy_example face rng normalize_flag add_noise s0 = ((bv, fv), s)"
    and bf: "base fv = Suc (length s0)"
    and nn: "\<not> add_noise \<longrightarrow> bv = bgv"
    and bb: "base bv = (if add_noise then length s0 + 2 else length s0)"
    and r_bg: "read_view s bgv = bg0"
    and r_crop: "read_view s (slice_view bgv 300 365 670 750) = crop'"
    and r_f: "read_view s fv = (if normalize_flag then sub_scalar crop' (np_mean crop') else crop')"
    and r_b: "read_view s bv = (if add_noise then add_noise_50 bg0 (standard_normal rng (shape bg0))
                             else bg0)"
    by blast
  have ne: "base bv \<noteq> base fv" using bf bb by simp
  show ?thesis
    by (intro exI[of _ bv] exI[of _ fv] exI[of _ s] conjI)
       (rule ex ne nn r_bg r_crop[unfolded c] r_f[unfolded c] r_b)+
qed


subsection \<open>The correlator and the sweep\<close>

lemma row_major_less:
  assumes "j < (w::nat)" "i < y \<or> (i = y \<and> j < x)"
  shows "i * w + j < y * w + x"
proof (cases "i < y")
  case True
  then have "Suc i \<le> y" by simp
  then have "Suc i * w \<le> y * w" by (rule mult_le_mono1)
  then show ?thesis using assms(1) by simp
next
  case False
  then show ?thesis using assms(2) by simp
qed

text \<open>
  Claim C4. With \<^verbatim>\<open>return_max_loc=True\<close>, on a non-empty background,
  \<^verbatim>\<open>cross_correlation\<close> returns the surface and a pair \<open>(x, y)\<close> = (column, row) with
  \<open>x\<close> below the width and \<open>y\<close> below the height of the background; the surface at
  \<open>[y, x]\<close> is the maximum of the surface, and every cell before \<open>[y, x]\<close> in row-major
  order is strictly smaller (first occurrence).
\<close>

theorem cross_correlation_max_loc:
  assumes "wf_array bg" "0 < nrows bg" "0 < ncols bg"
  shows "\<exists>x y. cross_correlation bg f True = Inr (CorrLoc (correlate2d bg f) (x, y)) \<and>
           x < ncols bg \<and> y < nrows bg \<and>
           elem_at (correlate2d bg f) y x = Max (set (data (correlate2d bg f))) \<and>
           (\<forall>i j. i < nrows bg \<and> j < ncols bg \<and> (i < y \<or> (i = y \<and> j < x)) \<longrightarrow>
              elem_at (correlate2d bg f) i j < elem_at (correlate2d bg f) y x)"
proof -
  let ?c = "correlate2d bg f"
  let ?w = "ncols bg"
  have ne: "data ?c \<noteq> []"
    using assms(2,3) by (metis correlate2d_length length_0_conv mult_is_0 not_less_zero)
  from np_argmax_first_max[OF ne] obtain k where
    k: "np_argmax ?c = Inr k" "k < length (data ?c)"
    and mx: "\<forall>v \<in> set (data ?c). v \<le> data ?c ! k"
    and first: "\<forall>j < k. data ?c ! j < data ?c ! k" by blast
  have kl: "k < nrows bg * ?w" using k(2) by simp
  have cc: "cross_correlation bg f True = Inr (CorrLoc ?c (k mod ?w, k div ?w))"
    using k(1) kl by (simp add: cross_correlation_def np_unravel_index_def shape_def)
  have x: "k mod ?w < ?w" using assms(3) by simp
  have y: "k div ?w < nrows bg" using kl by (rule less_mult_imp_div_less)
  have at: "elem_at ?c (k div ?w) (k mod ?w) = data ?c ! k"
    by (simp add: elem_at_def)
  have "data ?c ! k \<in> set (data ?c)" using k(2) by (rule nth_mem)
  then have "Max (set (data ?c)) = data ?c ! k"
    using mx by (intro Max_eqI) auto
  then have m: "elem_at ?c (k div ?w) (k mod ?w) = Max (set (data ?c))" using at by simp
  have f: "\<forall>i j. i < nrows bg \<and> j < ?w \<and> (i < k div ?w \<or> (i = k div ?w \<and> j < k mod ?w)) \<longrightarrow>
              elem_at ?c i j < elem_at ?c (k div ?w) (k mod ?w)"
  proof (intro allI impI)
    fix i j
    assume h: "i < nrows bg \<and> j < ?w \<and> (i < k div ?w \<or> (i = k div ?w \<and> j < k mod ?w))"
    then have "i * ?w + j < (k div ?w) * ?w + k mod ?w"
      by (intro row_major_less) auto
    then have "i * ?w + j < k" by simp
    with first have "data ?c ! (i * ?w + j) < data ?c ! k" by blast
    then show "elem_at ?c i j < elem_at ?c (k div ?w) (k mod ?w)"
      using at by (simp add: elem_at_def)
  qed
  show ?thesis
    apply (rule exI[of _ "k mod ?w"])
    apply (rule exI[of _ "k div ?w"])
    using cc x y m f by blast
qed

theorem cross_correlation_max_loc_witness:
  "wf_array \<lparr>nrows = 2, ncols = 2, data = [1, 3, 3, 2 :: rat]\<rparr> \<and>
   (\<exists>x y. cross_correlation \<lparr>nrows = 2, ncols = 2, data = [1, 3, 3, 2 :: rat]\<rparr>
             \<lparr>nrows = 1, ncols = 1, data = [1]\<rparr> True
           = Inr (CorrLoc (correlate2d \<lparr>nrows = 2, ncols = 2, data = [1, 3, 3, 2]\<rparr>
                             \<lparr>nrows = 1, ncols = 1, data = [1]\<rparr>) (x, y)) \<and>
          x < 2 \<and> y < 2)"
proof -
  let ?bg = "\<lparr>nrows = 2, ncols = 2, data = [1, 3, 3, 2 :: rat]\<rparr>"
  have h: "wf_array ?bg" "0 < nrows ?bg" "0 < ncols ?bg" by (simp_all add: wf_array_def)
  from cross_correlation_max_loc[OF h, of "\<lparr>nrows = 1, ncols = 1, data = [1]\<rparr>"]
  obtain x y where "cross_correlation ?bg \<lparr>nrows = 1, ncols = 1, data = [1]\<rparr> True
           = Inr (CorrLoc (correlate2d ?bg \<lparr>nrows = 1, ncols = 1, data = [1]\<rparr>) (x, y))"
    "x < ncols ?bg" "y < nrows ?bg" by blast
  then show ?thesis using h(1) by auto
qed

text \<open>
  Claim C2. For \<open>0 < angle < 360\<close> the sweep loop returns. When the background is not
  empty it performs \<open>\<lceil>360 / angle\<rceil>\<close> iterations (36 for step 10, 52 for step 7); iteration
  \<open>k\<close> (from 0) runs the correlator on the filter rotated by \<open>k * angle\<close>, so the first angle
  is 0, each step advances by \<open>angle\<close>, and every tested angle is below 360.
\<close>

theorem sweep_terminates_count:
  assumes "0 < angle" "angle < 360"
  shows "(\<exists>r. sweep_loop rotate_fn bg f angle 0 [] [] = Some r) \<and>
         (0 < nrows bg \<and> 0 < ncols bg \<longrightarrow>
           (\<exists>cs ls. sweep_loop rotate_fn bg f angle 0 [] [] = Some (Inr (cs, ls)) \<and>
              length cs = nat \<lceil>360 / real_of_int angle\<rceil> \<and>
              length ls = nat \<lceil>360 / real_of_int angle\<rceil> \<and>
              (angle = 10 \<longrightarrow> length cs = 36) \<and> (angle = 7 \<longrightarrow> length cs = 52) \<and>
              (\<forall>k < length cs. int k * angle < 360 \<and>
                 cross_correlation bg (rotate_fn f (int k * angle)) True
                   = Inr (CorrLoc (cs ! k) (ls ! k)))))"
proof -
  let ?n = "nat \<lceil>360 / real_of_int angle\<rceil>"
  have full: "\<exists>cs ls. sweep_loop rotate_fn bg f angle 0 [] [] = Some (Inr (cs, ls)) \<and>
              length cs = ?n \<and> length ls = ?n \<and>
              (angle = 10 \<longrightarrow> length cs = 36) \<and> (angle = 7 \<longrightarrow> length cs = 52) \<and>
              (\<forall>k < length cs. int k * angle < 360 \<and>
                 cross_correlation bg (rotate_fn f (int k * angle)) True
                   = Inr (CorrLoc (cs ! k) (ls ! k)))"
    if ne: "0 < nrows bg" "0 < ncols bg"
  proof -
    from sweep_loop_unroll[OF ne sweep_count_bounds[OF assms(1)], of rotate_fn f "[]" "[]"]
    obtain cs ls where r: "sweep_loop rotate_fn bg f angle 0 [] [] = Some (Inr (cs, ls))"
      and len: "length cs = ?n" "length ls = ?n"
      and el: "\<forall>j<?n. cross_correlation bg (rotate_fn f (0 + int j * angle)) True
                     = Inr (CorrLoc (cs ! j) (ls ! j))"
      by auto
    have c10: "nat \<lceil>360 / real_of_int 10\<rceil> = 36" by simp
    have "\<lceil>360 / (7::real)\<rceil> = 52" by (simp add: ceiling_eq_iff)
    then have c7: "nat \<lceil>360 / real_of_int 7\<rceil> = 52" by simp
    show ?thesis
      using r len el sweep_count_bounds(2)[OF assms(1)] c10 c7 by auto
  qed
  have "\<exists>r. sweep_loop rotate_fn bg f angle 0 [] [] = Some r"
  proof (cases "0 < nrows bg \<and> 0 < ncols bg")
    case True
    then have "0 < nrows bg" "0 < ncols bg" by simp_all
    from full[OF this] show ?thesis by blast
  next
    case False
    then have "data (correlate2d bg (rotate_fn f 0)) = []" by (auto simp: correlate2d_def)
    then have "cross_correlation bg (rotate_fn f 0) True = Inl ValueError"
      by (simp add: cross_correlation_def np_argmax_def)
    then show ?thesis by (subst sweep_loop.simps) simp
  qed
  moreover have "0 < nrows bg \<and> 0 < ncols bg \<longrightarrow>
           (\<exists>cs ls. sweep_loop rotate_fn bg f angle 0 [] [] = Some (Inr (cs, ls)) \<and>
              length cs = ?n \<and> length ls = ?n \<and>
              (angle = 10 \<longrightarrow> length cs = 36) \<and> (angle = 7 \<longrightarrow> length cs = 52) \<and>
              (\<forall>k < length cs. int k * angle < 360 \<and>
                 cross_correlation bg (rotate_fn f (int k * angle)) True
                   = Inr (CorrLoc (cs ! k) (ls ! k))))"
    using full by blast
  ultimately show ?thesis by blast
qed

theorem sweep_terminates_count_witness:
  "(0::int) < 10 \<and> (10::int) < 360 \<and>
   (\<exists>cs ls. sweep_loop (\<lambda>a \<theta>. a) \<lparr>nrows = 1, ncols = 1, data = [2 :: rat]\<rparr>
               \<lparr>nrows = 1, ncols = 1, data = [3]\<rparr> 10 0 [] [] = Some (Inr (cs, ls)) \<and>
      length cs = 36 \<and> length ls = 36)"
  using sweep_terminates_count
    [of 10 "\<lambda>a \<theta>. a" "\<lparr>nrows = 1, ncols = 1, data = [2 :: rat]\<rparr>" "\<lparr>nrows = 1, ncols = 1, data = [3]\<rparr>"]
  by auto

text \<open>
  Claim C3. The claim asks for an invalid-argument error for every step outside
  \<open>(0, 360)\<close>. The assertion \<^verbatim>\<open>assert angle < 360\<close> rejects only steps of 360 and more: with
  step 0 the assertion passes, the running angle stays at 0 and the loop never returns.
\<close>

theorem rotational_cc_zero_step_diverges:
  "rotational_cc (\<lambda>a \<theta>. a) \<lparr>nrows = 1, ncols = 1, data = [2 :: rat]\<rparr>
     \<lparr>nrows = 1, ncols = 1, data = [3]\<rparr> 0 False False = None"
proof -
  have "sweep_loop (\<lambda>a \<theta>. a) \<lparr>nrows = 1, ncols = 1, data = [2 :: rat]\<rparr>
          \<lparr>nrows = 1, ncols = 1, data = [3]\<rparr> 0 0 [] [] = None"
    by (rule sweep_loop_diverges) simp_all
  then show ?thesis by (simp add: rotational_cc_def)
qed

text \<open>
  Claim C1. For a non-empty background and \<open>0 < angle < 360\<close>, the sweep loop returns the
  ordered lists \<open>cs\<close> of surfaces and \<open>ls\<close> of peak locations, one entry per tested angle,
  and the value of \<^verbatim>\<open>rotational_cc\<close> is chosen afterwards by the two flags: both set, the
  pair (mean surface, maximum surface) in that order, without the peak locations; only
  \<^verbatim>\<open>return_average\<close>, the mean surface; only \<^verbatim>\<open>return_max\<close>, the maximum surface; none, the
  pair \<open>(cs, ls)\<close>. The mean and the maximum are taken cell by cell over \<open>cs\<close>.
\<close>

theorem rotational_cc_return_shape:
  assumes "0 < nrows bg" "0 < ncols bg" "0 < angle" "angle < 360"
  shows "\<exists>cs ls m mx.
           sweep_loop rotate_fn bg f angle 0 [] [] = Some (Inr (cs, ls)) \<and>
           length cs = nat \<lceil>360 / real_of_int angle\<rceil> \<and> length ls = length cs \<and>
           (\<forall>k < length cs. cross_correlation bg (rotate_fn f (int k * angle)) True
                               = Inr (CorrLoc (cs ! k) (ls ! k))) \<and>
           shape m = shape bg \<and> shape mx = shape bg \<and>
           (\<forall>i j. i < nrows bg \<and> j < ncols bg \<longrightarrow>
              elem_at m i j = (\<Sum>c \<leftarrow> cs. elem_at c i j) / of_nat (length cs)) \<and>
           (\<forall>i j. i < nrows bg \<and> j < ncols bg \<longrightarrow>
              elem_at mx i j = Max ((\<lambda>c. elem_at c i j) ` set cs)) \<and>
           rotational_cc rotate_fn bg f angle True True = Some (Inr (MeanAndMax m mx)) \<and>
           rotational_cc rotate_fn bg f angle True False = Some (Inr (MeanOnly m)) \<and>
           rotational_cc rotate_fn bg f angle False True = Some (Inr (MaxOnly mx)) \<and>
           rotational_cc rotate_fn bg f angle False False = Some (Inr (AllSurfaces cs ls))"
proof -
  let ?n = "nat \<lceil>360 / real_of_int angle\<rceil>"
  from sweep_loop_unroll[OF assms(1,2) sweep_count_bounds[OF assms(3)], of rotate_fn f "[]" "[]"]
  obtain cs ls where r: "sweep_loop rotate_fn bg f angle 0 [] [] = Some (Inr (cs, ls))"
    and len: "length cs = ?n" "length ls = ?n"
    and el: "\<forall>j<?n. cross_correlation bg (rotate_fn f (0 + int j * angle)) True
                   = Inr (CorrLoc (cs ! j) (ls ! j))"
    by auto
  have "360 \<le> 0 + int ?n * angle" by (rule sweep_count_bounds(1)[OF assms(3)])
  then have "?n \<noteq> 0" by (intro notI) simp
  then have ne: "cs \<noteq> []" using len by auto
  have sh: "\<forall>c \<in> set cs. wf_array c \<and> shape c = (nrows bg, ncols bg)"
    using sweep_loop_shapes[OF r] by (simp add: shape_def)
  from np_mean_axis0_cells[OF ne sh] obtain m where
    m: "np_mean_axis0 cs = Inr m" "shape m = (nrows bg, ncols bg)"
    "\<forall>i j. i < nrows bg \<and> j < ncols bg \<longrightarrow>
        elem_at m i j = (\<Sum>c \<leftarrow> cs. elem_at c i j) / of_nat (length cs)" by blast
  from np_max_axis0_cells[OF ne sh] obtain mx where
    mx: "np_max_axis0 cs = Inr mx" "shape mx = (nrows bg, ncols bg)"
    "\<forall>i j. i < nrows bg \<and> j < ncols bg \<longrightarrow>
        elem_at mx i j = Max ((\<lambda>c. elem_at c i j) ` set cs)" by blast
  have a: "rotational_cc rotate_fn bg f angle True True = Some (Inr (MeanAndMax m mx))"
    using assms(4) r m(1) mx(1) by (simp add: rotational_cc_def select_result_def)
  have b: "rotational_cc rotate_fn bg f angle True False = Some (Inr (MeanOnly m))"
    using assms(4) r m(1) by (simp add: rotational_cc_def select_result_def)
  have c: "rotational_cc rotate_fn bg f angle False True = Some (Inr (MaxOnly mx))"
    using assms(4) r mx(1) by (simp add: rotational_cc_def select_result_def)
  have d: "rotational_cc rotate_fn bg f angle False False = Some (Inr (AllSurfaces cs ls))"
    using assms(4) r by (simp add: rotational_cc_def select_result_def)
  have e: "\<forall>k < length cs. cross_correlation bg (rotate_fn f (int k * angle)) True
                               = Inr (CorrLoc (cs ! k) (ls ! k))"
    using el len by simp
  have s: "shape m = shape bg" "shape mx = shape bg" using m(2) mx(2) by (simp_all add: shape_def)
  have l: "length ls = length cs" using len by simp
  show ?thesis
    by (intro exI[of _ cs] exI[of _ ls] exI[of _ m] exI[of _ mx] conjI)
       (rule r len(1) l e s m(3) mx(3) a b c d)+
qed

theorem rotational_cc_return_shape_witness:
  "(0::int) < 180 \<and> (180::int) < 360 \<and>
   (\<exists>cs ls m mx.
      rotational_cc (\<lambda>a \<theta>. a) \<lparr>nrows = 1, ncols = 1, data = [2 :: rat]\<rparr>
        \<lparr>nrows = 1, ncols = 1, data = [3]\<rparr> 180 True True = Some (Inr (MeanAndMax m mx)) \<and>
      rotational_cc (\<lambda>a \<theta>. a) \<lparr>nrows = 1, ncols = 1, data = [2 :: rat]\<rparr>
        \<lparr>nrows = 1, ncols = 1, data = [3]\<rparr> 180 True False = Some (Inr (MeanOnly m)) \<and>
      rotational_cc (\<lambda>a \<theta>. a) \<lparr>nrows = 1, ncols = 1, data = [2 :: rat]\<rparr>
        \<lparr>nrows = 1, ncols = 1, data = [3]\<rparr> 180 False True = Some (Inr (MaxOnly mx)) \<and>
      rotational_cc (\<lambda>a \<theta>. a) \<lparr>nrows = 1, ncols = 1, data = [2 :: rat]\<rparr>
        \<lparr>nrows = 1, ncols = 1, data = [3]\<rparr> 180 False False = Some (Inr (AllSurfaces cs ls)) \<and>
      length cs = 2 \<and> length ls = 2)"
proof -
  let ?bg = "\<lparr>nrows = 1, ncols = 1, data = [2 :: rat]\<rparr>"
  have h: "0 < nrows ?bg" "0 < ncols ?bg" "(0::int) < 180" "(180::int) < 360" by simp_all
  have n: "nat \<lceil>360 / real_of_int 180\<rceil> = 2" by simp
  from rotational_cc_return_shape[OF h, of "\<lambda>a \<theta>. a" "\<lparr>nrows = 1, ncols = 1, data = [3]\<rparr>"]
  obtain cs ls m mx where
    "length cs = nat \<lceil>360 / real_of_int 180\<rceil>" "length ls = length cs"
    "rotational_cc (\<lambda>a \<theta>. a) ?bg \<lparr>nrows = 1, ncols = 1, data = [3]\<rparr> 180 True True
       = Some (Inr (MeanAndMax m mx))"
    "rotational_cc (\<lambda>a \<theta>. a) ?bg \<lparr>nrows = 1, ncols = 1, data = [3]\<rparr> 180 True False
       = Some (Inr (MeanOnly m))"
    "rotational_cc (\<lambda>a \<theta>. a) ?bg \<lparr>nrows = 1, ncols = 1, data = [3]\<rparr> 180 False True
       = Some (Inr (MaxOnly mx))"
    "rotational_cc (\<lambda>a \<theta>. a) ?bg \<lparr>nrows = 1, ncols = 1, data = [3]\<rparr> 180 False False
       = Some (Inr (AllSurfaces cs ls))"
    by blast
  then show ?thesis unfolding n by (intro conjI exI[of _ cs] exI[of _ ls] exI[of _ m] exI[of _ mx]) simp_all
qed

text \<open>
  Claim C5. The surface \<^verbatim>\<open>cross_correlation\<close> returns has the shape of the background,
  whatever the shape of the filter and whatever the flag, so all the surfaces one sweep
  collects have the same shape. (The model of the correlation gives this for every filter;
  the claim asks it for filters no larger than the background.)
\<close>

theorem correlation_surface_shape:
  "shape (correlate2d bg f) = shape bg \<and>
   cross_correlation bg f False = Inr (CorrOnly (correlate2d bg f)) \<and>
   (\<forall>c l. cross_correlation bg f True = Inr (CorrLoc c l) \<longrightarrow> shape c = shape bg) \<and>
   (\<forall>cs ls. sweep_loop rotate_fn bg f angle 0 [] [] = Some (Inr (cs, ls)) \<longrightarrow>
      (\<forall>c \<in> set cs. shape c = shape bg))"
proof -
  have a: "shape (correlate2d bg f) = shape bg" by (rule correlate2d_shape)
  have b: "cross_correlation bg f False = Inr (CorrOnly (correlate2d bg f))"
    by (simp add: cross_correlation_def)
  have c: "\<forall>c l. cross_correlation bg f True = Inr (CorrLoc c l) \<longrightarrow> shape c = shape bg"
    by (auto simp: cross_correlation_def Let_def correlate2d_shape split: if_splits sum.splits)
  have d: "\<forall>cs ls. sweep_loop rotate_fn bg f angle 0 [] [] = Some (Inr (cs, ls)) \<longrightarrow>
      (\<forall>c \<in> set cs. shape c = shape bg)"
    using sweep_loop_shapes by blast
  from a b c d show ?thesis by blast
qed

theorem correlation_surface_shape_witness:
  "(\<exists>c l. cross_correlation \<lparr>nrows = 2, ncols = 3, data = [1, 5, 2, 4, 0, 3 :: rat]\<rparr>
             \<lparr>nrows = 1, ncols = 2, data = [1, 1]\<rparr> True = Inr (CorrLoc c l) \<and>
           shape c = (2, 3)) \<and>
   (\<exists>cs ls. sweep_loop (\<lambda>a \<theta>. a) \<lparr>nrows = 2, ncols = 3, data = [1, 5, 2, 4, 0, 3 :: rat]\<rparr>
               \<lparr>nrows = 1, ncols = 2, data = [1, 1]\<rparr> 90 0 [] [] = Some (Inr (cs, ls)) \<and>
             length cs = 4 \<and> list_all (\<lambda>c. shape c = (2, 3)) cs)"
proof -
  let ?bg = "\<lparr>nrows = 2, ncols = 3, data = [1, 5, 2, 4, 0, 3 :: rat]\<rparr>"
  let ?f = "\<lparr>nrows = 1, ncols = 2, data = [1, 1 :: rat]\<rparr>"
  have h: "0 < nrows ?bg" "0 < ncols ?bg" by simp_all
  note t = correlation_surface_shape[of ?bg ?f "\<lambda>a \<theta>. a" 90]
  from cross_correlation_True[OF h, of ?f] obtain l where
    "cross_correlation ?bg ?f True = Inr (CorrLoc (correlate2d ?bg ?f) l)" by blast
  moreover from this t have "shape (correlate2d ?bg ?f) = (2, 3)" by (simp add: shape_def)
  ultimately have 1: "\<exists>c l. cross_correlation ?bg ?f True = Inr (CorrLoc c l) \<and> shape c = (2, 3)"
    by blast
  have "(0::int) < 90" by simp
  from sweep_loop_unroll[OF h sweep_count_bounds[OF this], of "\<lambda>a \<theta>. a" ?f "[]" "[]"]
  obtain cs ls where r: "sweep_loop (\<lambda>a \<theta>. a) ?bg ?f 90 0 [] [] = Some (Inr (cs, ls))"
    and len: "length cs = nat \<lceil>360 / real_of_int 90\<rceil>" by auto
  have "length cs = 4" using len by simp
  moreover from r t have "\<forall>c \<in> set cs. shape c = (2, 3)" by (simp add: shape_def)
  ultimately have 2: "\<exists>cs ls. sweep_loop (\<lambda>a \<theta>. a) ?bg ?f 90 0 [] [] = Some (Inr (cs, ls)) \<and>
             length cs = 4 \<and> list_all (\<lambda>c. shape c = (2, 3)) cs"
    using r by (auto simp: list_all_iff)
  from 1 2 show ?thesis by blast
qed

text \<open>
  Claim C7. When the rotation by 0 degrees returns the filter, the first surface the sweep
  collects (angle 0) is the surface \<^verbatim>\<open>cross_correlation\<close> returns when called on the
  background and the filter as given, and the first peak location is the one that call
  reports. Arithmetic is exact here, so the two surfaces are equal and not only close.
\<close>

theorem first_sweep_surface_is_direct_surface:
  assumes "rotates_by_zero_as_identity rotate_fn f"
    and "0 < nrows bg" "0 < ncols bg" "0 < angle" "angle < 360"
  shows "\<exists>cs ls.
           sweep_loop rotate_fn bg f angle 0 [] [] = Some (Inr (cs, ls)) \<and>
           rotational_cc rotate_fn bg f angle False False = Some (Inr (AllSurfaces cs ls)) \<and>
           cs \<noteq> [] \<and> ls \<noteq> [] \<and>
           cross_correlation bg f False = Inr (CorrOnly (hd cs)) \<and>
           cross_correlation bg f True = Inr (CorrLoc (hd cs) (hd ls))"
proof -
  let ?n = "nat \<lceil>360 / real_of_int angle\<rceil>"
  from sweep_loop_unroll[OF assms(2,3) sweep_count_bounds[OF assms(4)], of rotate_fn f "[]" "[]"]
  obtain cs ls where r: "sweep_loop rotate_fn bg f angle 0 [] [] = Some (Inr (cs, ls))"
    and len: "length cs = ?n" "length ls = ?n"
    and el: "\<forall>j<?n. cross_correlation bg (rotate_fn f (0 + int j * angle)) True
                   = Inr (CorrLoc (cs ! j) (ls ! j))"
    by auto
  have "360 \<le> 0 + int ?n * angle" by (rule sweep_count_bounds(1)[OF assms(4)])
  then have "?n \<noteq> 0" by (intro notI) simp
  then have pos: "0 < ?n" by simp
  have ne: "cs \<noteq> []" "ls \<noteq> []" using len pos by auto
  have rot: "rotate_fn f 0 = f"
    using assms(1) by (simp add: rotates_by_zero_as_identity_def)
  from el pos have "cross_correlation bg (rotate_fn f (0 + int 0 * angle)) True
                   = Inr (CorrLoc (cs ! 0) (ls ! 0))" by blast
  then have first: "cross_correlation bg f True = Inr (CorrLoc (cs ! 0) (ls ! 0))"
    using rot by simp
  have h: "hd cs = cs ! 0" "hd ls = ls ! 0" using ne by (simp_all add: hd_conv_nth)
  have t: "cross_correlation bg f True = Inr (CorrLoc (hd cs) (hd ls))"
    unfolding h by (rule first)
  have "hd cs = correlate2d bg f" by (rule cross_correlation_True_surface[OF t])
  then have d: "cross_correlation bg f False = Inr (CorrOnly (hd cs))"
    by (simp add: cross_correlation_def)
  have a: "rotational_cc rotate_fn bg f angle False False = Some (Inr (AllSurfaces cs ls))"
    using assms(5) r by (simp add: rotational_cc_def select_result_def)
  from r a ne d t show ?thesis by blast
qed

theorem first_sweep_surface_is_direct_surface_witness:
  "rotates_by_zero_as_identity (\<lambda>a \<theta>. a) \<lparr>nrows = 1, ncols = 2, data = [3, 1 :: rat]\<rparr> \<and>
   (0::int) < 90 \<and> (90::int) < 360 \<and>
   (\<exists>cs ls.
      rotational_cc (\<lambda>a \<theta>. a) \<lparr>nrows = 2, ncols = 3, data = [1, 5, 2, 4, 0, 3 :: rat]\<rparr>
        \<lparr>nrows = 1, ncols = 2, data = [3, 1]\<rparr> 90 False False = Some (Inr (AllSurfaces cs ls)) \<and>
      cross_correlation \<lparr>nrows = 2, ncols = 3, data = [1, 5, 2, 4, 0, 3 :: rat]\<rparr>
        \<lparr>nrows = 1, ncols = 2, data = [3, 1]\<rparr> False = Inr (CorrOnly (hd cs)) \<and>
      cross_correlation \<lparr>nrows = 2, ncols = 3, data = [1, 5, 2, 4, 0, 3 :: rat]\<rparr>
        \<lparr>nrows = 1, ncols = 2, data = [3, 1]\<rparr> True = Inr (CorrLoc (hd cs) (hd ls)))"
proof -
  let ?bg = "\<lparr>nrows = 2, ncols = 3, data = [1, 5, 2, 4, 0, 3 :: rat]\<rparr>"
  let ?f = "\<lparr>nrows = 1, ncols = 2, data = [3, 1 :: rat]\<rparr>"
  have h: "rotates_by_zero_as_identity (\<lambda>a \<theta>. a) ?f" "0 < nrows ?bg" "0 < ncols ?bg"
    "(0::int) < 90" "(90::int) < 360"
    by (simp_all add: rotates_by_zero_as_identity_def)
  from first_sweep_surface_is_direct_surface[OF h]
  obtain cs ls where
    "rotational_cc (\<lambda>a \<theta>. a) ?bg ?f 90 False False = Some (Inr (AllSurfaces cs ls))"
    "cross_correlation ?bg ?f False = Inr (CorrOnly (hd cs))"
    "cross_correlation ?bg ?f True = Inr (CorrLoc (hd cs) (hd ls))"
    by blast
  then have "\<exists>cs ls.
      rotational_cc (\<lambda>a \<theta>. a) ?bg ?f 90 False False = Some (Inr (AllSurfaces cs ls)) \<and>
      cross_correlation ?bg ?f False = Inr (CorrOnly (hd cs)) \<and>
      cross_correlation ?bg ?f True = Inr (CorrLoc (hd cs) (hd ls))"
    by blast
  with h(1) show ?thesis by simp
qed

subsection \<open>The sample generator\<close>

text \<open>
  Claim C6. For both values of \<^verbatim>\<open>normalize\<close>: the filter returned with \<^verbatim>\<open>add_noise=True\<close> has
  the value of the filter returned with \<^verbatim>\<open>add_noise=False\<close>, whatever the generator draws. It
  is the sub-region \<^verbatim>\<open>[300:365, 670:750]\<close> of the background without noise (with its own mean
  subtracted when \<^verbatim>\<open>normalize\<close> is set). The noise goes to the background only: the returned
  background is the background without noise plus 50 times the samples drawn, in a new
  array, and the array without noise keeps its value.
\<close>

theorem filter_taken_before_noise:
  fixes face :: "('a::linordered_field) ndarray"
  assumes "wf_array face"
  shows "\<exists>bv fv s bv0 fv0 t.
           scipy_example face rng normalize_flag True s0 = ((bv, fv), s) \<and>
           scipy_example face rng' normalize_flag False s0 = ((bv0, fv0), t) \<and>
           read_view s fv = read_view t fv0 \<and>
           read_view s fv =
             (if normalize_flag
              then sub_scalar (read_view t (slice_view bv0 300 365 670 750))
                     (np_mean (read_view t (slice_view bv0 300 365 670 750)))
              else read_view t (slice_view bv0 300 365 670 750)) \<and>
           read_view s bv =
             add_noise_50 (read_view t bv0) (standard_normal rng (shape (read_view t bv0))) \<and>
           read_view s bv0 = read_view t bv0"
proof -
  define bg0 where "bg0 = (if normalize_flag then sub_scalar face (np_mean face) else face)"
  define crop where "crop = read_view [data bg0]
           (slice_view \<lparr>base = 0, offset = 0, vrows = nrows face, vcols = ncols face,
                          stride = ncols face\<rparr> 300 365 670 750)"
  define bgv where "bgv = \<lparr>base = length s0, offset = 0, vrows = nrows face,
                          vcols = ncols face, stride = ncols face\<rparr>"
  from scipy_example_values[OF assms bg0_def crop_def bgv_def, of rng True]
  obtain bv fv s where a: "scipy_example face rng normalize_flag True s0 = ((bv, fv), s)"
    and a_bg: "read_view s bgv = bg0"
    and a_f: "read_view s fv = (if normalize_flag then sub_scalar crop (np_mean crop) else crop)"
    and a_b: "read_view s bv = add_noise_50 bg0 (standard_normal rng (shape bg0))"
    by auto
  from scipy_example_values[OF assms bg0_def crop_def bgv_def, of rng' False]
  obtain bv0 fv0 t where b: "scipy_example face rng' normalize_flag False s0 = ((bv0, fv0), t)"
    and b_v: "bv0 = bgv"
    and b_crop: "read_view t (slice_view bgv 300 365 670 750) = crop"
    and b_f: "read_view t fv0 = (if normalize_flag then sub_scalar crop (np_mean crop) else crop)"
    and b_b: "read_view t bv0 = bg0"
    by auto
  have 1: "read_view s fv = read_view t fv0" using a_f b_f by simp
  have 2: "read_view s fv =
             (if normalize_flag
              then sub_scalar (read_view t (slice_view bv0 300 365 670 750))
                     (np_mean (read_view t (slice_view bv0 300 365 670 750)))
              else read_view t (slice_view bv0 300 365 670 750))"
    unfolding b_v b_crop by (rule a_f)
  have 3: "read_view s bv =
             add_noise_50 (read_view t bv0) (standard_normal rng (shape (read_view t bv0)))"
    unfolding b_b by (rule a_b)
  have 4: "read_view s bv0 = read_view t bv0" unfolding b_b unfolding b_v by (rule a_bg)
  show ?thesis
    by (intro exI[of _ bv] exI[of _ fv] exI[of _ s] exI[of _ bv0] exI[of _ fv0] exI[of _ t] conjI)
       (rule a b 1 2 3 4)+
qed

theorem filter_taken_before_noise_witness:
  "wf_array \<lparr>nrows = 768, ncols = 1024, data = replicate (768 * 1024) (7 :: rat)\<rparr> \<and>
   (\<exists>bv fv s bv0 fv0 t.
      scipy_example \<lparr>nrows = 768, ncols = 1024, data = replicate (768 * 1024) (7 :: rat)\<rparr>
        (\<lambda>k. of_nat k) True True [] = ((bv, fv), s) \<and>
      scipy_example \<lparr>nrows = 768, ncols = 1024, data = replicate (768 * 1024) (7 :: rat)\<rparr>
        (\<lambda>k. 0) True False [] = ((bv0, fv0), t) \<and>
      read_view s fv = read_view t fv0 \<and> read_view s bv0 = read_view t bv0)"
proof -
  let ?F = "\<lparr>nrows = 768, ncols = 1024, data = replicate (768 * 1024) (7 :: rat)\<rparr>"
  have h: "wf_array ?F" by (simp add: wf_array_def)
  from filter_taken_before_noise[OF h, of "\<lambda>k. of_nat k" True "[]" "\<lambda>k. 0"]
  obtain bv fv s bv0 fv0 t where
    "scipy_example ?F (\<lambda>k. of_nat k) True True [] = ((bv, fv), s)"
    "scipy_example ?F (\<lambda>k. 0) True False [] = ((bv0, fv0), t)"
    "read_view s fv = read_view t fv0" "read_view s bv0 = read_view t bv0"
    by blast
  then show ?thesis using h by blast
qed

text \<open>
  Claim C8. With \<^verbatim>\<open>normalize=True\<close>, on an image with more than 300 rows and 670 columns (the
  sample image is 768 by 1024): the background before the noise step is the image minus the
  mean of the image; the filter is the sub-region of that background minus the mean of the
  sub-region, a second and separate subtraction; the mean of each is 0. Arithmetic is
  exact here, so the means are 0 and not only close to 0.
\<close>

theorem normalize_zero_means:
  fixes face :: "('a::linordered_field) ndarray"
  assumes "wf_array face" "300 < nrows face" "670 < ncols face"
  shows "\<exists>bv fv s bg0.
           scipy_example face rng True add_noise s0 = ((bv, fv), s) \<and>
           bg0 = sub_scalar face (np_mean face) \<and>
           read_view s bv =
             (if add_noise then add_noise_50 bg0 (standard_normal rng (shape bg0)) else bg0) \<and>
           (\<exists>bgv crop. read_view s bgv = bg0 \<and>
              crop = read_view s (slice_view bgv 300 365 670 750) \<and>
              read_view s fv = sub_scalar crop (np_mean crop)) \<and>
           np_mean bg0 = 0 \<and> np_mean (read_view s fv) = 0"
proof -
  define bg0 where "bg0 = (if True then sub_scalar face (np_mean face) else face)"
  define bgv0 where "bgv0 = \<lparr>base = 0, offset = 0, vrows = nrows face, vcols = ncols face,
                    stride = ncols face\<rparr>"
  define crop where "crop = read_view [data bg0] (slice_view bgv0 300 365 670 750)"
  define bgv where "bgv = \<lparr>base = length s0, offset = 0, vrows = nrows face,
                          vcols = ncols face, stride = ncols face\<rparr>"
  have bg0: "bg0 = sub_scalar face (np_mean face)" by (simp add: bg0_def)
  from scipy_example_values[OF assms(1) bg0_def crop_def[unfolded bgv0_def] bgv_def, of rng add_noise]
  obtain bv fv s where ex: "scipy_example face rng True add_noise s0 = ((bv, fv), s)"
    and r_bg: "read_view s bgv = bg0"
    and r_crop: "read_view s (slice_view bgv 300 365 670 750) = crop"
    and r_f: "read_view s fv = sub_scalar crop (np_mean crop)"
    and r_b: "read_view s bv =
                (if add_noise then add_noise_50 bg0 (standard_normal rng (shape bg0)) else bg0)"
    by auto
  have "data face \<noteq> []"
  proof
    assume "data face = []"
    then have "nrows face * ncols face = 0" using assms(1) by (simp add: wf_array_def)
    then show False using assms(2,3) by simp
  qed
  then have m_bg: "np_mean bg0 = 0" unfolding bg0 by (rule np_mean_sub_scalar)
  have "0 < vrows (slice_view bgv0 300 365 670 750)" "0 < vcols (slice_view bgv0 300 365 670 750)"
    using crop_nonempty[of bgv0] assms(2,3) by (simp_all add: bgv0_def)
  then have "0 < length (data crop)"
    by (simp add: crop_def read_view_def view_positions_def)
  then have "data crop \<noteq> []" by simp
  then have m_f: "np_mean (read_view s fv) = 0" unfolding r_f by (rule np_mean_sub_scalar)
  have inner: "\<exists>bgv crop. read_view s bgv = bg0 \<and>
              crop = read_view s (slice_view bgv 300 365 670 750) \<and>
              read_view s fv = sub_scalar crop (np_mean crop)"
    using r_bg r_crop r_f by blast
  from ex bg0 r_b inner m_bg m_f show ?thesis by blast
qed

theorem normalize_zero_means_witness:
  "wf_array \<lparr>nrows = 768, ncols = 1024, data = replicate (768 * 1024) (7 :: rat)\<rparr> \<and>
   (\<exists>bv fv s.
      scipy_example \<lparr>nrows = 768, ncols = 1024, data = replicate (768 * 1024) (7 :: rat)\<rparr>
        (\<lambda>k. of_nat k) True False [] = ((bv, fv), s) \<and>
      np_mean (read_view s bv) = 0 \<and> np_mean (read_view s fv) = 0)"
proof -
  let ?F = "\<lparr>nrows = 768, ncols = 1024, data = replicate (768 * 1024) (7 :: rat)\<rparr>"
  have h: "wf_array ?F" "300 < nrows ?F" "670 < ncols ?F" by (simp_all add: wf_array_def)
  from normalize_zero_means[OF h, of "\<lambda>k. of_nat k" False "[]"]
  obtain bv fv s bg0 where
    "scipy_example ?F (\<lambda>k. of_nat k) True False [] = ((bv, fv), s)"
    "read_view s bv = bg0" "np_mean bg0 = 0" "np_mean (read_view s fv) = 0"
    by auto
  then show ?thesis using h(1) by blast
qed

text \<open>
  Claim C9. With \<^verbatim>\<open>normalize=True\<close> and \<^verbatim>\<open>add_noise=False\<close>, two calls return backgrounds of
  equal value and filters of equal value, whatever the generators would draw and whatever
  the stores the two calls start in (the second call may start in the store the first call
  left).
\<close>

theorem no_noise_deterministic:
  fixes face :: "('a::linordered_field) ndarray"
  assumes "wf_array face"
  shows "\<exists>bv fv s bv' fv' s'.
           scipy_example face rng True False s0 = ((bv, fv), s) \<and>
           scipy_example face rng' True False s0' = ((bv', fv'), s') \<and>
           read_view s bv = read_view s' bv' \<and> read_view s fv = read_view s' fv'"
proof -
  define bg0 where "bg0 = (if True then sub_scalar face (np_mean face) else face)"
  define crop where "crop = read_view [data bg0]
     (slice_view \<lparr>base = 0, offset = 0, vrows = nrows face, vcols = ncols face,
                    stride = ncols face\<rparr> 300 365 670 750)"
  from scipy_example_values[OF assms bg0_def crop_def refl, of rng False s0]
  obtain bv fv s where a: "scipy_example face rng True False s0 = ((bv, fv), s)"
    "read_view s bv = bg0" "read_view s fv = sub_scalar crop (np_mean crop)"
    by auto
  from scipy_example_values[OF assms bg0_def crop_def refl, of rng' False s0']
  obtain bv' fv' s' where b: "scipy_example face rng' True False s0' = ((bv', fv'), s')"
    "read_view s' bv' = bg0" "read_view s' fv' = sub_scalar crop (np_mean crop)"
    by auto
  have 1: "read_view s bv = read_view s' bv'" using a(2) b(2) by simp
  have 2: "read_view s fv = read_view s' fv'" using a(3) b(3) by simp
  show ?thesis
    by (intro exI[of _ bv] exI[of _ fv] exI[of _ s] exI[of _ bv'] exI[of _ fv'] exI[of _ s'] conjI)
       (rule a(1) b(1) 1 2)+
qed

theorem no_noise_deterministic_witness:
  "wf_array \<lparr>nrows = 768, ncols = 1024, data = replicate (768 * 1024) (7 :: rat)\<rparr> \<and>
   (\<exists>bv fv s bv' fv' s'.
      scipy_example \<lparr>nrows = 768, ncols = 1024, data = replicate (768 * 1024) (7 :: rat)\<rparr>
        (\<lambda>k. 0) True False [] = ((bv, fv), s) \<and>
      scipy_example \<lparr>nrows = 768, ncols = 1024, data = replicate (768 * 1024) (7 :: rat)\<rparr>
        (\<lambda>k. of_nat k) True False s = ((bv', fv'), s') \<and>
      read_view s bv = read_view s' bv' \<and> read_view s fv = read_view s' fv')"
proof -
  let ?F = "\<lparr>nrows = 768, ncols = 1024, data = replicate (768 * 1024) (7 :: rat)\<rparr>"
  have h: "wf_array ?F" by (simp add: wf_array_def)
  obtain bv fv s where s: "scipy_example ?F (\<lambda>k. 0) True False [] = ((bv, fv), s)"
    by (metis prod.exhaust)
  from no_noise_deterministic[OF h, of "\<lambda>k. 0" "[]" "\<lambda>k. of_nat k" s] s
  show ?thesis using h by auto
qed

text \<open>
  Claim C10. The filter and the background returned live in two different buffers. So any
  write to the buffer of one of them, and any in-place update of one of them, leaves the
  value of the other unchanged. The in-place subtraction of the mean from the filter has
  left the background unchanged: without noise the returned background is the image (minus
  its mean when \<^verbatim>\<open>normalize\<close> is set).
\<close>

theorem filter_is_independent_copy:
  fixes face :: "('a::linordered_field) ndarray"
  assumes "wf_array face"
  shows "\<exists>bv fv s bg0.
           scipy_example face rng normalize_flag add_noise s0 = ((bv, fv), s) \<and>
           base bv \<noteq> base fv \<and>
           (\<forall>buf. read_view (s[base fv := buf]) bv = read_view s bv) \<and>
           (\<forall>buf. read_view (s[base bv := buf]) fv = read_view s fv) \<and>
           (\<forall>g. read_view (inplace_map fv g s) bv = read_view s bv) \<and>
           (\<forall>g. read_view (inplace_map bv g s) fv = read_view s fv) \<and>
           bg0 = (if normalize_flag then sub_scalar face (np_mean face) else face) \<and>
           read_view s bv =
             (if add_noise then add_noise_50 bg0 (standard_normal rng (shape bg0)) else bg0)"
proof -
  define bg0 where "bg0 = (if normalize_flag then sub_scalar face (np_mean face) else face)"
  from scipy_example_values[OF assms bg0_def refl refl, of rng add_noise s0]
  obtain bv fv s where ex: "scipy_example face rng normalize_flag add_noise s0 = ((bv, fv), s)"
    and ne: "base bv \<noteq> base fv"
    and r_b: "read_view s bv =
                (if add_noise then add_noise_50 bg0 (standard_normal rng (shape bg0)) else bg0)"
    by blast
  have 1: "\<forall>buf. read_view (s[base fv := buf]) bv = read_view s bv"
    using read_view_update_other[OF ne] by blast
  have 2: "\<forall>buf. read_view (s[base bv := buf]) fv = read_view s fv"
    using read_view_update_other[OF ne[symmetric]] by blast
  have 3: "\<forall>g. read_view (inplace_map fv g s) bv = read_view s bv"
    using read_view_inplace_other[OF ne] by blast
  have 4: "\<forall>g. read_view (inplace_map bv g s) fv = read_view s fv"
    using read_view_inplace_other[OF ne[symmetric]] by blast
  show ?thesis
    by (intro exI[of _ bv] exI[of _ fv] exI[of _ s] exI[of _ bg0] conjI)
       (rule ex ne 1 2 3 4 bg0_def r_b)+
qed

theorem filter_is_independent_copy_witness:
  "wf_array \<lparr>nrows = 768, ncols = 1024, data = replicate (768 * 1024) (7 :: rat)\<rparr> \<and>
   (\<exists>bv fv s.
      scipy_example \<lparr>nrows = 768, ncols = 1024, data = replicate (768 * 1024) (7 :: rat)\<rparr>
        (\<lambda>k. of_nat k) True True [] = ((bv, fv), s) \<and>
      base bv \<noteq> base fv \<and>
      read_view (inplace_map fv (\<lambda>x. x - 1) s) bv = read_view s bv \<and>
      read_view (inplace_map bv (\<lambda>x. x - 1) s) fv = read_view s fv)"
proof -
  let ?F = "\<lparr>nrows = 768, ncols = 1024, data = replicate (768 * 1024) (7 :: rat)\<rparr>"
  have h: "wf_array ?F" by (simp add: wf_array_def)
  from filter_is_independent_copy[OF h, of "\<lambda>k. of_nat k" True True "[]"]
  obtain bv fv s where
    "scipy_example ?F (\<lambda>k. of_nat k) True True [] = ((bv, fv), s)"
    "base bv \<noteq> base fv"
    "\<forall>g. read_view (inplace_map fv g s) bv = read_view s bv"
    "\<forall>g. read_view (inplace_map bv g s) fv = read_view s fv"
    by blast
  then show ?thesis using h by blast
qed

end
